theory Spec2Isabelle
  imports Complex_Main "HOL-Library.AList"
begin

section \<open>Data model of useVehicleTracking.ts\<close>

text \<open>
  The composable \<^verbatim>\<open>useVehicleTracking\<close> keeps a registry of map markers in step with
  snapshots polled from a backend. Its closure variables become one record, its
  functions become state transformers, and every call it makes on the Leaflet objects
  it owns is appended to a trace, so that "no call was made" is a statement about the
  state. The values received from JSON are finite numbers; the code only compares them
  with \<^verbatim>\<open>!==\<close>, which is equality on the values, so they are modelled as reals.
\<close>

type_synonym LatLng = "real \<times> real"

record VehiclePosition =
  vehicleId :: string
  lat :: real
  lng :: real
  speed :: "real option"
  heading :: "real option"
  time :: string

text \<open>The fields of \<^verbatim>\<open>RegisteredVehicle\<close> carry the prefix \<open>rv_\<close>: a field name is a
  constant, and \<^verbatim>\<open>vehicleId\<close> is already the field of a position.\<close>

record RegisteredVehicle =
  rv_id :: int
  rv_vehicleId :: string
  rv_name :: string
  rv_type :: "string option"
  rv_description :: "string option"
  rv_createdAt :: string

text \<open>What \<^verbatim>\<open>makeVehicleIcon(heading, color)\<close> and \<^verbatim>\<open>makeVehiclePopup(v)\<close> render is
  markup; the model keeps the values the markup is built from.\<close>

datatype DivIcon = DivIcon (iconHeading: real) (iconColor: string)

definition makeVehicleIcon :: "real \<Rightarrow> string \<Rightarrow> DivIcon" where
  "makeVehicleIcon h c = DivIcon h c"

datatype PopupHtml = PopupHtml string string "real option" "real option"

definition makeVehiclePopup :: "VehiclePosition \<Rightarrow> PopupHtml" where
  "makeVehiclePopup v = PopupHtml (vehicleId v) (time v) (speed v) (heading v)"

text \<open>A Leaflet marker: its identity \<open>mid\<close> and what the code sets on it.\<close>

record Marker =
  mid :: nat
  latlng :: LatLng
  icon :: DivIcon
  zIndexOffset :: nat
  tooltip :: string
  popup :: PopupHtml
  onClick :: string

text \<open>\<^verbatim>\<open>interface MarkerEntry { marker; heading; speed; color }\<close>, the cached fields
  prefixed with \<open>e_\<close>.\<close>

record MarkerEntry =
  marker :: Marker
  e_heading :: real
  e_speed :: "real option"
  e_color :: string

record Polyline =
  pid :: nat
  latlngs :: "LatLng list"

text \<open>The calls made on Leaflet objects and on the timer.\<close>

datatype call =
    SetLatLng nat LatLng
  | SetIcon nat DivIcon
  | SetPopupContent nat PopupHtml
  | AddLayer nat
  | RemoveLayer nat
  | ClearLayers
  | LayerAddTo
  | MapRemoveLayer
  | PolylineAddTo nat
  | PolylineRemove nat
  | ClearInterval

text \<open>The viewer creates one map; \<^verbatim>\<open>getMap()\<close> returns it or \<^verbatim>\<open>null\<close>. What is
  attached to the map is part of the state: \<open>layerOnMap\<close> is
  \<^verbatim>\<open>map.hasLayer(markerLayer)\<close> and \<open>mapTracks\<close> are the polylines on the map.\<close>

datatype LeafletMap = LeafletMap

record tracking =
  vehicles :: "VehiclePosition list"
  registeredVehicles :: "RegisteredVehicle list"
  selectedVehicleId :: "string option"
  visible :: bool
  markerLayer :: "nat list"
  markerMap :: "(string \<times> MarkerEntry) list"
  trackPolyline :: "Polyline option"
  timer :: "nat option"
  layerOnMap :: bool
  mapTracks :: "Polyline list"
  nextId :: nat
  calls :: "call list"

text \<open>The state when \<^verbatim>\<open>useVehicleTracking\<close> returns.\<close>

definition init :: tracking where
  "init = \<lparr>vehicles = [], registeredVehicles = [], selectedVehicleId = None,
     visible = True, markerLayer = [], markerMap = [], trackPolyline = None,
     timer = None, layerOnMap = False, mapTracks = [], nextId = 0, calls = []\<rparr>"

text \<open>How an awaited \<^verbatim>\<open>fetch\<close> followed by \<^verbatim>\<open>res.json()\<close> ends: \<^verbatim>\<open>fetch\<close> throws,
  \<^verbatim>\<open>res.ok\<close> is false, \<^verbatim>\<open>res.json()\<close> throws, or the decoded value arrives.\<close>

datatype 'a response = NetworkError | NotOk | BadJson | OkJson 'a

section \<open>fetchRegisteredVehicles\<close>

definition fetchRegisteredVehicles ::
  "tracking \<Rightarrow> RegisteredVehicle list response \<Rightarrow> tracking" where
  "fetchRegisteredVehicles s res =
     (case res of OkJson rs \<Rightarrow> s\<lparr>registeredVehicles := rs\<rparr> | _ \<Rightarrow> s)"

section \<open>refresh\<close>

text \<open>The branch for an existing entry (lines 69 to 86): the three change flags are
  read before anything is written, the marker is mutated in place.\<close>

definition update_entry ::
  "VehiclePosition \<Rightarrow> real \<Rightarrow> string \<Rightarrow> MarkerEntry \<Rightarrow> MarkerEntry \<times> call list" where
  "update_entry v h c entry =
     (let ll = latlng (marker entry);
          moved = (fst ll \<noteq> lat v \<or> snd ll \<noteq> lng v);
          e1 = (if moved then entry\<lparr>marker := (marker entry)\<lparr>latlng := (lat v, lng v)\<rparr>\<rparr>
                else entry);
          c1 = (if moved then [SetLatLng (mid (marker entry)) (lat v, lng v)] else []);
          headingChanged = (e_heading entry \<noteq> h);
          colorChanged = (e_color entry \<noteq> c);
          speedChanged = (e_speed entry \<noteq> speed v);
          e2 = (if headingChanged \<or> colorChanged
                then e1\<lparr>marker := (marker e1)\<lparr>icon := makeVehicleIcon h c\<rparr>,
                        e_heading := h, e_color := c\<rparr>
                else e1);
          c2 = (if headingChanged \<or> colorChanged
                then [SetIcon (mid (marker entry)) (makeVehicleIcon h c)] else []);
          e3 = (if headingChanged \<or> speedChanged
                then e2\<lparr>marker := (marker e2)\<lparr>popup := makeVehiclePopup v\<rparr>,
                        e_speed := speed v\<rparr>
                else e2);
          c3 = (if headingChanged \<or> speedChanged
                then [SetPopupContent (mid (marker entry)) (makeVehiclePopup v)] else [])
      in (e3, c1 @ c2 @ c3))"

text \<open>The branch for a new vehicle (lines 89 to 96): the marker with its icon, tooltip,
  popup and click handler, and the entry caching what was rendered.\<close>

definition new_entry :: "VehiclePosition \<Rightarrow> real \<Rightarrow> string \<Rightarrow> nat \<Rightarrow> MarkerEntry" where
  "new_entry v h c n =
     \<lparr>marker = \<lparr>mid = n, latlng = (lat v, lng v), icon = makeVehicleIcon h c,
                zIndexOffset = 500, tooltip = vehicleId v, popup = makeVehiclePopup v,
                onClick = vehicleId v\<rparr>,
      e_heading = h, e_speed = speed v, e_color = c\<rparr>"

definition vehicle_color :: "string set \<Rightarrow> VehiclePosition \<Rightarrow> string" where
  "vehicle_color knownIds v = (if vehicleId v \<in> knownIds then ''#E65100'' else ''#757575'')"

definition vehicle_heading :: "VehiclePosition \<Rightarrow> real" where
  "vehicle_heading v = (case heading v of None \<Rightarrow> 0 | Some h \<Rightarrow> h)"

text \<open>One turn of the loop over the snapshot (lines 63 to 98). \<^verbatim>\<open>Map.set\<close> on a key
  that is present keeps its place and on a new key appends, as \<open>AList.update\<close> does.\<close>

definition refresh_position :: "string set \<Rightarrow> VehiclePosition \<Rightarrow> tracking \<Rightarrow> tracking" where
  "refresh_position knownIds v s =
     (let color = vehicle_color knownIds v;
          h = vehicle_heading v
      in case map_of (markerMap s) (vehicleId v) of
           Some entry \<Rightarrow>
             s\<lparr>markerMap := AList.update (vehicleId v) (fst (update_entry v h color entry))
                              (markerMap s),
               calls := calls s @ snd (update_entry v h color entry)\<rparr>
         | None \<Rightarrow>
             s\<lparr>markerMap := AList.update (vehicleId v) (new_entry v h color (nextId s))
                              (markerMap s),
               markerLayer := markerLayer s @ [nextId s],
               nextId := Suc (nextId s),
               calls := calls s @ [AddLayer (nextId s)]\<rparr>)"

text \<open>The loop of lines 61 to 99, with \<^verbatim>\<open>seenIds\<close> as its second result.\<close>

fun refresh_loop ::
  "string set \<Rightarrow> VehiclePosition list \<Rightarrow> tracking \<Rightarrow> string set \<Rightarrow> tracking \<times> string set" where
  "refresh_loop knownIds [] s seenIds = (s, seenIds)"
| "refresh_loop knownIds (v # vs) s seenIds =
     refresh_loop knownIds vs (refresh_position knownIds v s) (insert (vehicleId v) seenIds)"

text \<open>The loop of lines 102 to 107 over the entries of \<^verbatim>\<open>markerMap\<close>. Deleting the
  entry being visited does not disturb the iteration of a JavaScript \<^verbatim>\<open>Map\<close>, so the
  loop runs over the entries present when it starts.\<close>

fun refresh_sweep :: "string set \<Rightarrow> (string \<times> MarkerEntry) list \<Rightarrow> tracking \<Rightarrow> tracking" where
  "refresh_sweep seenIds [] s = s"
| "refresh_sweep seenIds (p # ps) s =
     refresh_sweep seenIds ps
       (if fst p \<notin> seenIds
        then s\<lparr>markerLayer := removeAll (mid (marker (snd p))) (markerLayer s),
               markerMap := AList.delete (fst p) (markerMap s),
               calls := calls s @ [RemoveLayer (mid (marker (snd p)))]\<rparr>
        else s)"

text \<open>\<^verbatim>\<open>refresh\<close> after its \<^verbatim>\<open>await\<close>: everything from line 52 on, run on the state in
  which the response arrives.\<close>

definition refresh_resume :: "tracking \<Rightarrow> VehiclePosition list response \<Rightarrow> tracking" where
  "refresh_resume s res =
     (case res of
        OkJson data \<Rightarrow>
          (let s1 = s\<lparr>vehicles := data\<rparr> in
           if \<not> visible s1 then s1
           else
             (let knownIds = set (map rv_vehicleId (registeredVehicles s1));
                  r = refresh_loop knownIds data s1 {};
                  s3 = refresh_sweep (snd r) (markerMap (fst r)) (fst r)
              in if \<not> layerOnMap s3
                 then s3\<lparr>layerOnMap := True, calls := calls s3 @ [LayerAddTo]\<rparr>
                 else s3))
      | _ \<Rightarrow> s)"

text \<open>\<^verbatim>\<open>refresh\<close> with nothing running between the request and its response. The map
  handle is read first (lines 48 and 49); without a map nothing is fetched.\<close>

definition refresh ::
  "tracking \<Rightarrow> LeafletMap option \<Rightarrow> VehiclePosition list response \<Rightarrow> tracking" where
  "refresh s m res = (case m of None \<Rightarrow> s | Some _ \<Rightarrow> refresh_resume s res)"

section \<open>selectVehicle and clearTrack\<close>

text \<open>\<^verbatim>\<open>trackPolyline?.remove()\<close>: a call only when there is a polyline.\<close>

definition remove_track :: "tracking \<Rightarrow> tracking" where
  "remove_track s =
     (case trackPolyline s of
        None \<Rightarrow> s
      | Some p \<Rightarrow> s\<lparr>mapTracks := filter (\<lambda>q. pid q \<noteq> pid p) (mapTracks s),
                    calls := calls s @ [PolylineRemove (pid p)]\<rparr>)"

text \<open>Lines 117 to 119, before the history is requested.\<close>

definition selectVehicle_begin :: "tracking \<Rightarrow> string \<Rightarrow> tracking" where
  "selectVehicle_begin s vid =
     (remove_track (s\<lparr>selectedVehicleId := Some vid\<rparr>))\<lparr>trackPolyline := None\<rparr>"

text \<open>Lines 125 to 131, on the state in which the response arrives.\<close>

definition selectVehicle_resume :: "tracking \<Rightarrow> VehiclePosition list response \<Rightarrow> tracking" where
  "selectVehicle_resume s res =
     (case res of
        OkJson points \<Rightarrow>
          if length points < 2 then s
          else
            (let p = \<lparr>pid = nextId s, latlngs = map (\<lambda>q. (lat q, lng q)) points\<rparr>
             in s\<lparr>trackPolyline := Some p, mapTracks := mapTracks s @ [p],
                  nextId := Suc (nextId s), calls := calls s @ [PolylineAddTo (nextId s)]\<rparr>)
      | _ \<Rightarrow> s)"

definition selectVehicle ::
  "tracking \<Rightarrow> LeafletMap option \<Rightarrow> string \<Rightarrow> VehiclePosition list response \<Rightarrow> tracking" where
  "selectVehicle s m vid res =
     (case m of None \<Rightarrow> s | Some _ \<Rightarrow> selectVehicle_resume (selectVehicle_begin s vid) res)"

definition clearTrack :: "tracking \<Rightarrow> tracking" where
  "clearTrack s = (remove_track s)\<lparr>trackPolyline := None, selectedVehicleId := None\<rparr>"

section \<open>toggleVisibility, start and stop\<close>

text \<open>\<^verbatim>\<open>toggleVisibility\<close>; when the layer becomes visible it calls \<^verbatim>\<open>refresh()\<close>, whose
  response is then given to \<open>refresh_resume\<close>.\<close>

definition toggleVisibility :: "tracking \<Rightarrow> LeafletMap option \<Rightarrow> tracking" where
  "toggleVisibility s m =
     (case m of
        None \<Rightarrow> s
      | Some _ \<Rightarrow>
          (let s1 = s\<lparr>visible := \<not> visible s\<rparr> in
           if visible s1 then s1
           else s1\<lparr>layerOnMap := False, markerLayer := [], markerMap := [],
                   calls := calls s1 @ [MapRemoveLayer, ClearLayers]\<rparr>))"

text \<open>\<^verbatim>\<open>start\<close> issues the two requests and arms the timer.\<close>

definition start :: "tracking \<Rightarrow> nat \<Rightarrow> tracking" where
  "start s intervalMs = s\<lparr>timer := Some intervalMs\<rparr>"

definition stop :: "tracking \<Rightarrow> LeafletMap option \<Rightarrow> tracking" where
  "stop s m =
     (let s1 = (case timer s of
                  None \<Rightarrow> s
                | Some _ \<Rightarrow> s\<lparr>timer := None, calls := calls s @ [ClearInterval]\<rparr>);
          s2 = remove_track s1;
          s3 = (case m of
                  None \<Rightarrow> s2
                | Some _ \<Rightarrow> s2\<lparr>layerOnMap := False, calls := calls s2 @ [MapRemoveLayer]\<rparr>)
      in s3\<lparr>markerLayer := [], markerMap := [], calls := calls s3 @ [ClearLayers]\<rparr>)"

section \<open>Predicates of the statements\<close>

text \<open>
  An entry reflects a position when the marker stands at its coordinates and the cached
  heading, speed and colour are the ones the loop computes for it.
\<close>

definition entry_reflects :: "string set \<Rightarrow> VehiclePosition \<Rightarrow> MarkerEntry \<Rightarrow> bool" where
  "entry_reflects K v e =
     (latlng (marker e) = (lat v, lng v) \<and> e_heading e = vehicle_heading v
      \<and> e_speed e = speed v \<and> e_color e = vehicle_color K v)"

text \<open>
  The icon on the marker is the one rendered from the cached heading and colour. Every
  entry the code creates or updates has this property.
\<close>

definition entry_ok :: "MarkerEntry \<Rightarrow> bool" where
  "entry_ok e = (icon (marker e) = makeVehicleIcon (e_heading e) (e_color e))"

text \<open>
  The number of markers added to the layer so far, read off the trace.
\<close>

fun is_add :: "call \<Rightarrow> bool" where
  "is_add (AddLayer n) = True"
| "is_add c = False"

definition adds :: "tracking \<Rightarrow> nat" where
  "adds s = length (filter is_add (calls s))"

section \<open>Sample data\<close>

text \<open>
  The positions of the scenario in the specification, and states reached with them.
\<close>

definition posA :: VehiclePosition where
  "posA = \<lparr>vehicleId = ''A'', lat = 1, lng = 1, speed = None, heading = Some 0,
            time = ''t0''\<rparr>"

definition posA90 :: VehiclePosition where
  "posA90 = \<lparr>vehicleId = ''A'', lat = 1, lng = 1, speed = None, heading = Some 90,
              time = ''t1''\<rparr>"

definition posB :: VehiclePosition where
  "posB = \<lparr>vehicleId = ''B'', lat = 2, lng = 2, speed = Some 5, heading = None,
            time = ''t2''\<rparr>"

definition regA :: RegisteredVehicle where
  "regA = \<lparr>rv_id = 1, rv_vehicleId = ''A'', rv_name = ''Truck A'', rv_type = None,
            rv_description = None, rv_createdAt = ''t''\<rparr>"

definition stA :: tracking where
  "stA = refresh init (Some LeafletMap) (OkJson [posA])"

definition posAfast :: VehiclePosition where
  "posAfast = \<lparr>vehicleId = ''A'', lat = 1, lng = 1, speed = Some 3, heading = Some 0,
                time = ''t3''\<rparr>"

definition posAfar :: VehiclePosition where
  "posAfar = \<lparr>vehicleId = ''A'', lat = 3, lng = 4, speed = Some 3, heading = Some 0,
               time = ''t4''\<rparr>"

definition posAturn :: VehiclePosition where
  "posAturn = \<lparr>vehicleId = ''A'', lat = 1, lng = 5, speed = None, heading = Some 90,
                time = ''t5''\<rparr>"

definition entryA :: MarkerEntry where
  "entryA = \<lparr>marker = \<lparr>mid = 0, latlng = (1, 1), icon = DivIcon 0 ''#757575'',
                zIndexOffset = 500, tooltip = ''A'',
                popup = PopupHtml ''A'' ''t0'' None (Some 0), onClick = ''A''\<rparr>,
              e_heading = 0, e_speed = None, e_color = ''#757575''\<rparr>"

definition stKnown :: tracking where
  "stKnown = fetchRegisteredVehicles stA (OkJson [regA])"

definition stTrack :: tracking where
  "stTrack = selectVehicle init (Some LeafletMap) ''A'' (OkJson [posA, posA90])"

section \<open>The registry after a pass\<close>

lemma keys_refresh_position:
  "fst ` set (markerMap (refresh_position K v s)) =
     insert (vehicleId v) (fst ` set (markerMap s))"
  by (simp add: refresh_position_def Let_def dom_update split: option.split)

lemma keys_refresh_loop:
  "fst ` set (markerMap (fst (refresh_loop K vs s seen))) =
     fst ` set (markerMap s) \<union> vehicleId ` set vs"
  by (induction vs arbitrary: s seen) (auto simp: keys_refresh_position)

lemma seen_refresh_loop:
  "snd (refresh_loop K vs s seen) = seen \<union> vehicleId ` set vs"
  by (induction vs arbitrary: s seen) auto

text \<open>
  The sweep keeps exactly the entries whose key was seen, among those it visits.
\<close>

lemma markerMap_refresh_sweep:
  "markerMap (refresh_sweep seen ps s) =
     filter (\<lambda>q. fst q \<in> seen \<or> fst q \<notin> fst ` set ps) (markerMap s)"
proof (induction ps arbitrary: s)
  case Nil
  then show ?case by simp
next
  case (Cons p ps)
  show ?case
  proof (cases "fst p \<in> seen")
    case True
    then show ?thesis
      by (simp add: Cons.IH) (rule filter_cong, auto)
  next
    case False
    then show ?thesis
      by (simp add: Cons.IH AList.delete_eq) (rule filter_cong, auto)
  qed
qed

lemma keys_sweep_self:
  "fst ` set (markerMap (refresh_sweep seen (markerMap s) s)) =
     fst ` set (markerMap s) \<inter> seen"
  by (auto simp: markerMap_refresh_sweep)

lemma keys_refresh_resume:
  assumes "visible s"
  shows "fst ` set (markerMap (refresh_resume s (OkJson data))) = vehicleId ` set data"
proof -
  define K where "K = set (map rv_vehicleId (registeredVehicles s))"
  define r where "r = refresh_loop K data (s\<lparr>vehicles := data\<rparr>) {}"
  have k: "fst ` set (markerMap (fst r)) = fst ` set (markerMap s) \<union> vehicleId ` set data"
    by (simp add: r_def keys_refresh_loop)
  have sn: "snd r = vehicleId ` set data"
    by (simp add: r_def seen_refresh_loop)
  have "fst ` set (markerMap (refresh_sweep (snd r) (markerMap (fst r)) (fst r))) =
          vehicleId ` set data"
    unfolding keys_sweep_self k sn by blast
  then show ?thesis
    using assms by (simp add: refresh_resume_def Let_def K_def r_def)
qed

section \<open>What the reconcile pass leaves alone\<close>

lemma refresh_position_frame:
  "vehicles (refresh_position K v s) = vehicles s"
  "registeredVehicles (refresh_position K v s) = registeredVehicles s"
  "selectedVehicleId (refresh_position K v s) = selectedVehicleId s"
  "visible (refresh_position K v s) = visible s"
  "trackPolyline (refresh_position K v s) = trackPolyline s"
  "timer (refresh_position K v s) = timer s"
  "layerOnMap (refresh_position K v s) = layerOnMap s"
  "mapTracks (refresh_position K v s) = mapTracks s"
  by (simp_all add: refresh_position_def Let_def split: option.split)

lemma refresh_loop_frame:
  "vehicles (fst (refresh_loop K vs s seen)) = vehicles s"
  "registeredVehicles (fst (refresh_loop K vs s seen)) = registeredVehicles s"
  "selectedVehicleId (fst (refresh_loop K vs s seen)) = selectedVehicleId s"
  "visible (fst (refresh_loop K vs s seen)) = visible s"
  "trackPolyline (fst (refresh_loop K vs s seen)) = trackPolyline s"
  "timer (fst (refresh_loop K vs s seen)) = timer s"
  "layerOnMap (fst (refresh_loop K vs s seen)) = layerOnMap s"
  "mapTracks (fst (refresh_loop K vs s seen)) = mapTracks s"
  by (induction vs arbitrary: s seen) (simp_all add: refresh_position_frame)

lemma refresh_sweep_frame:
  "vehicles (refresh_sweep seen ps s) = vehicles s"
  "registeredVehicles (refresh_sweep seen ps s) = registeredVehicles s"
  "selectedVehicleId (refresh_sweep seen ps s) = selectedVehicleId s"
  "visible (refresh_sweep seen ps s) = visible s"
  "trackPolyline (refresh_sweep seen ps s) = trackPolyline s"
  "timer (refresh_sweep seen ps s) = timer s"
  "layerOnMap (refresh_sweep seen ps s) = layerOnMap s"
  "mapTracks (refresh_sweep seen ps s) = mapTracks s"
  "nextId (refresh_sweep seen ps s) = nextId s"
  by (induction ps arbitrary: s) simp_all

lemma refresh_resume_frame:
  "registeredVehicles (refresh_resume s res) = registeredVehicles s"
  "selectedVehicleId (refresh_resume s res) = selectedVehicleId s"
  "visible (refresh_resume s res) = visible s"
  "trackPolyline (refresh_resume s res) = trackPolyline s"
  "timer (refresh_resume s res) = timer s"
  "mapTracks (refresh_resume s res) = mapTracks s"
  by (simp_all add: refresh_resume_def Let_def refresh_sweep_frame refresh_loop_frame
      split: response.split)

lemma vehicles_refresh_resume: "vehicles (refresh_resume s (OkJson data)) = data"
  by (simp add: refresh_resume_def Let_def refresh_sweep_frame refresh_loop_frame)

lemma layerOnMap_refresh_resume:
  "visible s \<Longrightarrow> layerOnMap (refresh_resume s (OkJson data))"
  by (simp add: refresh_resume_def Let_def)

lemma markerMap_refresh_resume:
  assumes "visible s"
  shows "markerMap (refresh_resume s (OkJson data)) =
     filter (\<lambda>q. fst q \<in> vehicleId ` set data)
       (markerMap (fst (refresh_loop (rv_vehicleId ` set (registeredVehicles s)) data
          (s\<lparr>vehicles := data\<rparr>) {})))"
  using assms
  by (simp add: refresh_resume_def Let_def markerMap_refresh_sweep seen_refresh_loop cong: filter_cong)

lemma stop_frame:
  "visible (stop s m) = visible s" "vehicles (stop s m) = vehicles s"
  "registeredVehicles (stop s m) = registeredVehicles s"
  "markerMap (stop s m) = []" "markerLayer (stop s m) = []" "timer (stop s m) = None"
  by (simp_all add: stop_def remove_track_def Let_def split: option.split)

section \<open>The sample states, evaluated\<close>

lemma stA_facts:
  "visible stA" "vehicles stA = [posA]" "fst ` set (markerMap stA) = {''A''}"
  "registeredVehicles stA = []" "layerOnMap stA"
proof -
  have v0: "visible init" by (simp add: init_def)
  show "visible stA"
    by (simp add: stA_def refresh_def refresh_resume_frame init_def)
  show "vehicles stA = [posA]"
    by (simp add: stA_def refresh_def vehicles_refresh_resume)
  show "fst ` set (markerMap stA) = {''A''}"
    by (simp add: stA_def refresh_def keys_refresh_resume[OF v0] posA_def)
  show "registeredVehicles stA = []"
    by (simp add: stA_def refresh_def refresh_resume_frame init_def)
  show "layerOnMap stA"
    by (simp add: stA_def refresh_def layerOnMap_refresh_resume[OF v0])
qed

lemma stA_eval:
  "stA = \<lparr>vehicles = [posA], registeredVehicles = [], selectedVehicleId = None,
     visible = True, markerLayer = [0], markerMap = [(''A'', entryA)],
     trackPolyline = None, timer = None, layerOnMap = True, mapTracks = [],
     nextId = 1, calls = [AddLayer 0, LayerAddTo]\<rparr>"
  by (simp add: stA_def refresh_def refresh_resume_def refresh_position_def new_entry_def
      vehicle_color_def vehicle_heading_def init_def posA_def Let_def makeVehicleIcon_def
      makeVehiclePopup_def entryA_def)

lemma stKnown_eval:
  "stKnown = stA\<lparr>registeredVehicles := [regA]\<rparr>"
  by (simp add: stKnown_def fetchRegisteredVehicles_def)

lemma stTrack_eval:
  "stTrack = init\<lparr>selectedVehicleId := Some ''A'',
      trackPolyline := Some \<lparr>pid = 0, latlngs = [(1, 1), (1, 1)]\<rparr>,
      mapTracks := [\<lparr>pid = 0, latlngs = [(1, 1), (1, 1)]\<rparr>],
      nextId := 1, calls := [PolylineAddTo 0]\<rparr>"
  by (simp add: stTrack_def selectVehicle_def selectVehicle_resume_def selectVehicle_begin_def
      remove_track_def init_def Let_def posA_def posA90_def)

section \<open>Key set of the registry\<close>

text \<open>
  C1. When the layer is visible, the map handle is not null and the fetch succeeds, the
  keys of the marker registry after \<^verbatim>\<open>refresh\<close> are exactly the vehicle ids of the
  snapshot, whatever the registry held before; for the empty snapshot the registry is
  empty.
\<close>

theorem refresh_registry_keys:
  assumes "visible s"
  shows "fst ` set (markerMap (refresh s (Some m) (OkJson data))) = vehicleId ` set data
    \<and> markerMap (refresh s (Some m) (OkJson [])) = []"
  using keys_refresh_resume[OF assms, of data] keys_refresh_resume[OF assms, of "[]"]
  by (simp add: refresh_def)

theorem refresh_registry_keys_witness:
  "visible stA
   \<and> fst ` set (markerMap (refresh stA (Some LeafletMap) (OkJson [posB, posA90]))) =
       {''A'', ''B''}
   \<and> markerMap (refresh stA (Some LeafletMap) (OkJson [])) = []"
  using stA_facts(1) refresh_registry_keys[OF stA_facts(1), of LeafletMap "[posB, posA90]"]
  by (auto simp: posB_def posA90_def)

section \<open>Failed fetch and hidden layer\<close>

text \<open>
  C5. When the snapshot fetch fails (the request throws, the response is not a success,
  or its body cannot be decoded), \<^verbatim>\<open>refresh\<close> returns the state it was given: neither
  \<^verbatim>\<open>vehicles\<close> nor the registry nor anything else changes. The same holds for the
  continuation alone, on the state in which the failure arrives.
\<close>

theorem refresh_failed_fetch:
  assumes "res = NetworkError \<or> res = NotOk \<or> res = BadJson"
  shows "refresh s m res = s \<and> refresh_resume s res = s"
  using assms by (auto simp: refresh_def refresh_resume_def split: option.split)

theorem refresh_failed_fetch_witness:
  "refresh stA (Some LeafletMap) NotOk = stA
   \<and> vehicles (refresh stA (Some LeafletMap) NetworkError) = [posA]
   \<and> fst ` set (markerMap (refresh stA (Some LeafletMap) BadJson)) = {''A''}"
  using stA_facts refresh_failed_fetch[of NotOk stA "Some LeafletMap"]
    refresh_failed_fetch[of NetworkError stA "Some LeafletMap"]
    refresh_failed_fetch[of BadJson stA "Some LeafletMap"]
  by simp

text \<open>
  C6. When the layer is hidden, the map handle is not null and the fetch succeeds,
  \<^verbatim>\<open>refresh\<close> stores the snapshot in \<^verbatim>\<open>vehicles\<close> and changes nothing else: the
  registry, the marker layer and the trace of calls are those of the state before.
\<close>

theorem refresh_hidden_stores_snapshot:
  assumes "\<not> visible s"
  shows "refresh s (Some m) (OkJson data) = s\<lparr>vehicles := data\<rparr>"
  using assms by (simp add: refresh_def refresh_resume_def)

theorem refresh_hidden_stores_snapshot_witness:
  "\<not> visible (toggleVisibility stA (Some LeafletMap))
   \<and> refresh (toggleVisibility stA (Some LeafletMap)) (Some LeafletMap) (OkJson [posB]) =
       (toggleVisibility stA (Some LeafletMap))\<lparr>vehicles := [posB]\<rparr>"
proof -
  have h: "\<not> visible (toggleVisibility stA (Some LeafletMap))"
    using stA_facts(1) by (simp add: toggleVisibility_def Let_def)
  show ?thesis
    using h refresh_hidden_stores_snapshot[OF h, of LeafletMap "[posB]"] by simp
qed

section \<open>One position against an existing entry\<close>

text \<open>
  What the branch for an existing entry returns when the colour is the cached one, by
  which of heading and speed differ from the cache. The marker is moved, and
  \<^verbatim>\<open>setLatLng\<close> called, exactly when the coordinates differ.
\<close>

lemma update_entry_speed_only:
  assumes "e_heading e = h" and "e_color e = c" and "e_speed e \<noteq> speed v"
  shows "update_entry v h c e =
     (e\<lparr>marker := (marker e)\<lparr>latlng := (lat v, lng v), popup := makeVehiclePopup v\<rparr>,
         e_speed := speed v\<rparr>,
      (if latlng (marker e) = (lat v, lng v) then []
       else [SetLatLng (mid (marker e)) (lat v, lng v)])
      @ [SetPopupContent (mid (marker e)) (makeVehiclePopup v)])"
  using assms
  by (cases e; cases "marker e") (auto simp: update_entry_def Let_def prod_eq_iff)

lemma update_entry_heading_only:
  assumes "e_heading e \<noteq> h" and "e_color e = c" and "e_speed e = speed v"
  shows "update_entry v h c e =
     (e\<lparr>marker := (marker e)\<lparr>latlng := (lat v, lng v), icon := makeVehicleIcon h c,
                               popup := makeVehiclePopup v\<rparr>,
         e_heading := h, e_color := c, e_speed := speed v\<rparr>,
      (if latlng (marker e) = (lat v, lng v) then []
       else [SetLatLng (mid (marker e)) (lat v, lng v)])
      @ [SetIcon (mid (marker e)) (makeVehicleIcon h c),
         SetPopupContent (mid (marker e)) (makeVehiclePopup v)])"
  using assms
  by (cases e; cases "marker e") (auto simp: update_entry_def Let_def prod_eq_iff)

lemma update_entry_same_attributes:
  assumes "e_heading e = h" and "e_color e = c" and "e_speed e = speed v"
  shows "update_entry v h c e =
     (e\<lparr>marker := (marker e)\<lparr>latlng := (lat v, lng v)\<rparr>\<rparr>,
      (if latlng (marker e) = (lat v, lng v) then []
       else [SetLatLng (mid (marker e)) (lat v, lng v)]))"
  using assms
  by (cases e; cases "marker e") (auto simp: update_entry_def Let_def prod_eq_iff)

text \<open>
  C3. For an entry of the registry and a position with its vehicle id and the entry's
  colour, wherever the marker stands: if only the speed differs from the cache, the popup
  content is regenerated and the cached speed updated, and no icon is regenerated; if
  only the heading differs, the icon and then the popup content are regenerated and the
  caches updated; if neither heading nor speed differs, neither icon nor popup is
  regenerated. In each case the only other call is \<^verbatim>\<open>setLatLng\<close>, made exactly when
  the coordinates differ; when the coordinates do not differ either, no call is made and
  the state is unchanged.
\<close>

theorem refresh_position_minimal:
  assumes "map_of (markerMap s) (vehicleId v) = Some e"
    and "e_color e = vehicle_color K v"
  shows
   "(e_heading e = vehicle_heading v \<and> e_speed e \<noteq> speed v \<longrightarrow>
       refresh_position K v s =
         s\<lparr>markerMap := AList.update (vehicleId v)
              (e\<lparr>marker := (marker e)\<lparr>latlng := (lat v, lng v), popup := makeVehiclePopup v\<rparr>,
                  e_speed := speed v\<rparr>) (markerMap s),
           calls := calls s @
              (if latlng (marker e) = (lat v, lng v) then []
               else [SetLatLng (mid (marker e)) (lat v, lng v)])
              @ [SetPopupContent (mid (marker e)) (makeVehiclePopup v)]\<rparr>)
    \<and> (e_heading e \<noteq> vehicle_heading v \<and> e_speed e = speed v \<longrightarrow>
       refresh_position K v s =
         s\<lparr>markerMap := AList.update (vehicleId v)
              (e\<lparr>marker := (marker e)\<lparr>latlng := (lat v, lng v),
                     icon := makeVehicleIcon (vehicle_heading v) (vehicle_color K v),
                     popup := makeVehiclePopup v\<rparr>,
                  e_heading := vehicle_heading v, e_color := vehicle_color K v,
                  e_speed := speed v\<rparr>) (markerMap s),
           calls := calls s @
              (if latlng (marker e) = (lat v, lng v) then []
               else [SetLatLng (mid (marker e)) (lat v, lng v)])
              @ [SetIcon (mid (marker e)) (makeVehicleIcon (vehicle_heading v) (vehicle_color K v)),
                 SetPopupContent (mid (marker e)) (makeVehiclePopup v)]\<rparr>)
    \<and> (e_heading e = vehicle_heading v \<and> e_speed e = speed v \<longrightarrow>
       refresh_position K v s =
         s\<lparr>markerMap := AList.update (vehicleId v)
              (e\<lparr>marker := (marker e)\<lparr>latlng := (lat v, lng v)\<rparr>\<rparr>) (markerMap s),
           calls := calls s @
              (if latlng (marker e) = (lat v, lng v) then []
               else [SetLatLng (mid (marker e)) (lat v, lng v)])\<rparr>)
    \<and> (e_heading e = vehicle_heading v \<and> e_speed e = speed v
          \<and> latlng (marker e) = (lat v, lng v) \<longrightarrow>
       refresh_position K v s = s)"
proof -
  have rp: "refresh_position K v s =
      s\<lparr>markerMap := AList.update (vehicleId v)
            (fst (update_entry v (vehicle_heading v) (vehicle_color K v) e)) (markerMap s),
        calls := calls s @ snd (update_entry v (vehicle_heading v) (vehicle_color K v) e)\<rparr>"
    using assms(1) by (simp add: refresh_position_def Let_def)
  have 1: "e_heading e = vehicle_heading v \<and> e_speed e \<noteq> speed v \<longrightarrow>
       refresh_position K v s =
         s\<lparr>markerMap := AList.update (vehicleId v)
              (e\<lparr>marker := (marker e)\<lparr>latlng := (lat v, lng v), popup := makeVehiclePopup v\<rparr>,
                  e_speed := speed v\<rparr>) (markerMap s),
           calls := calls s @
              (if latlng (marker e) = (lat v, lng v) then []
               else [SetLatLng (mid (marker e)) (lat v, lng v)])
              @ [SetPopupContent (mid (marker e)) (makeVehiclePopup v)]\<rparr>"
    (is "_ \<longrightarrow> _ = ?rhs")
  proof (intro impI, elim conjE)
    assume a: "e_heading e = vehicle_heading v" and b: "e_speed e \<noteq> speed v"
    show "refresh_position K v s = ?rhs"
      unfolding rp update_entry_speed_only[OF a assms(2) b] fst_conv snd_conv ..
  qed
  have 2: "e_heading e \<noteq> vehicle_heading v \<and> e_speed e = speed v \<longrightarrow>
       refresh_position K v s =
         s\<lparr>markerMap := AList.update (vehicleId v)
              (e\<lparr>marker := (marker e)\<lparr>latlng := (lat v, lng v),
                     icon := makeVehicleIcon (vehicle_heading v) (vehicle_color K v),
                     popup := makeVehiclePopup v\<rparr>,
                  e_heading := vehicle_heading v, e_color := vehicle_color K v,
                  e_speed := speed v\<rparr>) (markerMap s),
           calls := calls s @
              (if latlng (marker e) = (lat v, lng v) then []
               else [SetLatLng (mid (marker e)) (lat v, lng v)])
              @ [SetIcon (mid (marker e)) (makeVehicleIcon (vehicle_heading v) (vehicle_color K v)),
                 SetPopupContent (mid (marker e)) (makeVehiclePopup v)]\<rparr>"
    (is "_ \<longrightarrow> _ = ?rhs")
  proof (intro impI, elim conjE)
    assume a: "e_heading e \<noteq> vehicle_heading v" and b: "e_speed e = speed v"
    show "refresh_position K v s = ?rhs"
      unfolding rp update_entry_heading_only[OF a assms(2) b] fst_conv snd_conv ..
  qed
  have 3: "e_heading e = vehicle_heading v \<and> e_speed e = speed v \<longrightarrow>
       refresh_position K v s =
         s\<lparr>markerMap := AList.update (vehicleId v)
              (e\<lparr>marker := (marker e)\<lparr>latlng := (lat v, lng v)\<rparr>\<rparr>) (markerMap s),
           calls := calls s @
              (if latlng (marker e) = (lat v, lng v) then []
               else [SetLatLng (mid (marker e)) (lat v, lng v)])\<rparr>"
    (is "_ \<longrightarrow> _ = ?rhs")
  proof (intro impI, elim conjE)
    assume a: "e_heading e = vehicle_heading v" and b: "e_speed e = speed v"
    show "refresh_position K v s = ?rhs"
      unfolding rp update_entry_same_attributes[OF a assms(2) b] fst_conv snd_conv ..
  qed
  have 4: "e_heading e = vehicle_heading v \<and> e_speed e = speed v
          \<and> latlng (marker e) = (lat v, lng v) \<longrightarrow> refresh_position K v s = s"
  proof (intro impI, elim conjE)
    assume h: "e_heading e = vehicle_heading v" "e_speed e = speed v"
      "latlng (marker e) = (lat v, lng v)"
    then have "entry_reflects K v e" using assms(2) by (simp add: entry_reflects_def)
    then have "update_entry v (vehicle_heading v) (vehicle_color K v) e = (e, [])"
      by (simp add: update_entry_def entry_reflects_def Let_def)
    then show "refresh_position K v s = s"
      using assms(1) by (simp add: rp update_triv)
  qed
  from 1 2 3 4 show ?thesis by blast
qed

theorem refresh_position_minimal_witness:
  "refresh_position {} posAfast stA =
     stA\<lparr>markerMap := [(''A'', entryA\<lparr>marker := (marker entryA)\<lparr>popup := makeVehiclePopup posAfast\<rparr>,
                                       e_speed := Some 3\<rparr>)],
         calls := [AddLayer 0, LayerAddTo, SetPopupContent 0 (makeVehiclePopup posAfast)]\<rparr>
   \<and> refresh_position {} posAfar stA =
     stA\<lparr>markerMap := [(''A'', entryA\<lparr>marker := (marker entryA)\<lparr>latlng := (3, 4),
                                          popup := makeVehiclePopup posAfar\<rparr>,
                                       e_speed := Some 3\<rparr>)],
         calls := [AddLayer 0, LayerAddTo, SetLatLng 0 (3, 4),
                   SetPopupContent 0 (makeVehiclePopup posAfar)]\<rparr>
   \<and> calls (refresh_position {} posA90 stA) =
       [AddLayer 0, LayerAddTo, SetIcon 0 (makeVehicleIcon 90 ''#757575''),
        SetPopupContent 0 (makeVehiclePopup posA90)]
   \<and> calls (refresh_position {} posAturn stA) =
       [AddLayer 0, LayerAddTo, SetLatLng 0 (1, 5), SetIcon 0 (makeVehicleIcon 90 ''#757575''),
        SetPopupContent 0 (makeVehiclePopup posAturn)]
   \<and> refresh_position {} posA stA = stA"
proof -
  have m: "map_of (markerMap stA) ''A'' = Some entryA" by (simp add: stA_eval)
  have c: "calls stA = [AddLayer 0, LayerAddTo]" "markerMap stA = [(''A'', entryA)]"
    by (simp_all add: stA_eval)
  have 1: "refresh_position {} posAfast stA =
     stA\<lparr>markerMap := [(''A'', entryA\<lparr>marker := (marker entryA)\<lparr>popup := makeVehiclePopup posAfast\<rparr>,
                                       e_speed := Some 3\<rparr>)],
         calls := [AddLayer 0, LayerAddTo, SetPopupContent 0 (makeVehiclePopup posAfast)]\<rparr>"
    using refresh_position_minimal[where s = stA and v = posAfast and e = entryA and K = "{}"] m
    by (simp add: c posAfast_def entryA_def vehicle_color_def vehicle_heading_def)
  have 2: "refresh_position {} posAfar stA =
     stA\<lparr>markerMap := [(''A'', entryA\<lparr>marker := (marker entryA)\<lparr>latlng := (3, 4),
                                          popup := makeVehiclePopup posAfar\<rparr>,
                                       e_speed := Some 3\<rparr>)],
         calls := [AddLayer 0, LayerAddTo, SetLatLng 0 (3, 4),
                   SetPopupContent 0 (makeVehiclePopup posAfar)]\<rparr>"
    using refresh_position_minimal[where s = stA and v = posAfar and e = entryA and K = "{}"] m
    by (simp add: c posAfar_def entryA_def vehicle_color_def vehicle_heading_def)
  have 3: "calls (refresh_position {} posA90 stA) =
       [AddLayer 0, LayerAddTo, SetIcon 0 (makeVehicleIcon 90 ''#757575''),
        SetPopupContent 0 (makeVehiclePopup posA90)]"
    using refresh_position_minimal[where s = stA and v = posA90 and e = entryA and K = "{}"] m
    by (simp add: c posA90_def entryA_def vehicle_color_def vehicle_heading_def)
  have 4: "calls (refresh_position {} posAturn stA) =
       [AddLayer 0, LayerAddTo, SetLatLng 0 (1, 5), SetIcon 0 (makeVehicleIcon 90 ''#757575''),
        SetPopupContent 0 (makeVehiclePopup posAturn)]"
    using refresh_position_minimal[where s = stA and v = posAturn and e = entryA and K = "{}"] m
    by (simp add: c posAturn_def entryA_def vehicle_color_def vehicle_heading_def)
  have 5: "refresh_position {} posA stA = stA"
    using refresh_position_minimal[where s = stA and v = posA and e = entryA and K = "{}"] m
    by (simp add: c posA_def entryA_def vehicle_color_def vehicle_heading_def)
  from 1 2 3 4 5 show ?thesis by blast
qed

section \<open>Entries after a pass\<close>

lemma update_entry_reflects:
  "entry_reflects K v (fst (update_entry v (vehicle_heading v) (vehicle_color K v) e))"
  by (cases e) (auto simp: update_entry_def entry_reflects_def Let_def prod_eq_iff)

lemma update_entry_mid:
  "mid (marker (fst (update_entry v h c e))) = mid (marker e)"
  by (cases e) (auto simp: update_entry_def Let_def)

lemma new_entry_reflects:
  "entry_reflects K v (new_entry v (vehicle_heading v) (vehicle_color K v) n)"
  by (simp add: new_entry_def entry_reflects_def)

lemma map_of_refresh_position_same:
  "\<exists>e'. map_of (markerMap (refresh_position K v s)) (vehicleId v) = Some e' \<and> entry_reflects K v e'"
  by (simp add: refresh_position_def Let_def update_conv' update_entry_reflects new_entry_reflects
      split: option.split)

lemma map_of_refresh_position_other:
  "k \<noteq> vehicleId v \<Longrightarrow> map_of (markerMap (refresh_position K v s)) k = map_of (markerMap s) k"
  by (simp add: refresh_position_def Let_def update_conv' split: option.split)

lemma map_of_refresh_loop_other:
  "k \<notin> vehicleId ` set vs \<Longrightarrow>
   map_of (markerMap (fst (refresh_loop K vs s seen))) k = map_of (markerMap s) k"
  by (induction vs arbitrary: s seen) (auto simp: map_of_refresh_position_other)

lemma refresh_loop_append:
  "refresh_loop K (xs @ ys) s seen =
     refresh_loop K ys (fst (refresh_loop K xs s seen)) (snd (refresh_loop K xs s seen))"
  by (induction xs arbitrary: s seen) auto

lemma map_of_refresh_loop_last:
  assumes "vehicleId v \<notin> vehicleId ` set post"
  shows "\<exists>e. map_of (markerMap (fst (refresh_loop K (pre @ v # post) s seen))) (vehicleId v) = Some e
    \<and> entry_reflects K v e"
  using assms map_of_refresh_position_same[of K v "fst (refresh_loop K pre s seen)"]
  by (simp add: refresh_loop_append map_of_refresh_loop_other)

lemma map_of_filter_mem:
  "map_of (filter (\<lambda>q. fst q \<in> A) al) k = (if k \<in> A then map_of al k else None)"
  by (induction al) auto

lemma last_occurrence:
  assumes "v \<in> set data"
  shows "\<exists>pre w post. data = pre @ w # post \<and> vehicleId w = vehicleId v
    \<and> vehicleId v \<notin> vehicleId ` set post"
proof -
  from assms have "\<exists>x\<in>set data. vehicleId x = vehicleId v" by blast
  from split_list_last_prop[OF this] show ?thesis by (metis imageE)
qed

lemma first_occurrence:
  assumes "v \<in> set data"
  shows "\<exists>pre w post. data = pre @ w # post \<and> vehicleId w = vehicleId v
    \<and> vehicleId v \<notin> vehicleId ` set pre"
proof -
  from assms have "\<exists>x\<in>set data. vehicleId x = vehicleId v" by blast
  from split_list_first_prop[OF this] show ?thesis by (metis imageE)
qed

text \<open>
  After a visible pass the entry of a vehicle reflects the last position with its id.
\<close>

lemma entry_after_refresh_resume:
  assumes "visible s" and "vehicleId v \<notin> vehicleId ` set post"
  shows "\<exists>e. map_of (markerMap (refresh_resume s (OkJson (pre @ v # post)))) (vehicleId v) = Some e
    \<and> entry_reflects (rv_vehicleId ` set (registeredVehicles s)) v e"
proof -
  let ?K = "rv_vehicleId ` set (registeredVehicles s)"
  let ?d = "pre @ v # post"
  let ?al = "markerMap (fst (refresh_loop ?K ?d (s\<lparr>vehicles := ?d\<rparr>) {}))"
  from map_of_refresh_loop_last[OF assms(2), of ?K pre "s\<lparr>vehicles := ?d\<rparr>" "{}"]
  obtain e where e: "map_of ?al (vehicleId v) = Some e" and r: "entry_reflects ?K v e"
    by blast
  have mem: "vehicleId v \<in> vehicleId ` set ?d" by simp
  have "map_of (filter (\<lambda>q. fst q \<in> vehicleId ` set ?d) ?al) (vehicleId v) = Some e"
    unfolding map_of_filter_mem using mem e by (simp only: if_True)
  then have "map_of (markerMap (refresh_resume s (OkJson ?d))) (vehicleId v) = Some e"
    by (simp only: markerMap_refresh_resume[OF assms(1)])
  with r show ?thesis by blast
qed

section \<open>Duplicate vehicle ids in one snapshot\<close>

lemma distinct_refresh_position:
  "distinct (map fst (markerMap s)) \<Longrightarrow> distinct (map fst (markerMap (refresh_position K v s)))"
  by (simp add: refresh_position_def Let_def distinct_update split: option.split)

lemma distinct_refresh_loop:
  "distinct (map fst (markerMap s)) \<Longrightarrow>
   distinct (map fst (markerMap (fst (refresh_loop K vs s seen))))"
  by (induction vs arbitrary: s seen) (auto simp: distinct_refresh_position)

lemma distinct_refresh_resume:
  assumes "visible s" and "distinct (map fst (markerMap s))"
  shows "distinct (map fst (markerMap (refresh_resume s (OkJson data))))"
proof -
  have "distinct (map fst (markerMap (s\<lparr>vehicles := data\<rparr>)))" using assms(2) by simp
  from distinct_refresh_loop[OF this]
  show ?thesis
    by (simp only: markerMap_refresh_resume[OF assms(1)] distinct_map_filter)
qed

lemma count_key_distinct:
  "distinct (map fst al) \<Longrightarrow> k \<in> fst ` set al \<Longrightarrow>
   length (filter (\<lambda>p. fst p = k) al) = 1"
proof (induction al)
  case Nil
  then show ?case by simp
next
  case (Cons p al)
  show ?case
  proof (cases "fst p = k")
    case True
    with Cons.prems(1) have "k \<notin> fst ` set al" by auto
    then have "filter (\<lambda>p. fst p = k) al = []" by (auto simp: filter_empty_conv)
    with True show ?thesis by simp
  next
    case False
    with Cons show ?thesis by auto
  qed
qed

lemma mid_refresh_position:
  assumes "map_of (markerMap s) k = Some e0"
  shows "\<exists>e. map_of (markerMap (refresh_position K v s)) k = Some e
    \<and> mid (marker e) = mid (marker e0)"
proof (cases "k = vehicleId v")
  case True
  with assms show ?thesis
    by (simp add: refresh_position_def Let_def update_conv' update_entry_mid)
next
  case False
  with assms show ?thesis by (simp add: map_of_refresh_position_other)
qed

lemma mid_refresh_loop:
  "map_of (markerMap s) k = Some e0 \<Longrightarrow>
   \<exists>e. map_of (markerMap (fst (refresh_loop K vs s seen))) k = Some e
     \<and> mid (marker e) = mid (marker e0)"
proof (induction vs arbitrary: s seen e0)
  case Nil
  then show ?case by simp
next
  case (Cons v vs)
  from mid_refresh_position[OF Cons.prems, of K v]
  obtain e1 where e1: "map_of (markerMap (refresh_position K v s)) k = Some e1"
    and m1: "mid (marker e1) = mid (marker e0)" by blast
  from Cons.IH[OF e1, of "insert (vehicleId v) seen"] m1
  show ?case by (simp only: refresh_loop.simps)
qed

lemma mid_refresh_resume:
  assumes "visible s" and "map_of (markerMap s) k = Some e0" and "k \<in> vehicleId ` set data"
  shows "\<exists>e. map_of (markerMap (refresh_resume s (OkJson data))) k = Some e
    \<and> mid (marker e) = mid (marker e0)"
proof -
  have "map_of (markerMap (s\<lparr>vehicles := data\<rparr>)) k = Some e0" using assms(2) by simp
  from mid_refresh_loop[OF this, of "rv_vehicleId ` set (registeredVehicles s)" data "{}"]
  show ?thesis
    using assms(3) by (simp only: markerMap_refresh_resume[OF assms(1)] map_of_filter_mem if_True)
qed

lemma update_entry_no_add: "filter is_add (snd (update_entry v h c e)) = []"
  by (simp add: update_entry_def Let_def)

lemma map_of_Some_key: "map_of al k = Some x \<Longrightarrow> k \<in> fst ` set al"
  by (metis domI dom_map_of_conv_image_fst)

lemma adds_refresh_position:
  "adds (refresh_position K v s) =
     adds s + (if vehicleId v \<in> fst ` set (markerMap s) then 0 else 1)"
  by (auto simp: adds_def refresh_position_def Let_def update_entry_no_add map_of_eq_None_iff
      split: option.split dest: map_of_Some_key)

lemma card_new_ids:
  assumes "finite A"
  shows "card (insert k A - B) = (if k \<in> B then 0 else 1) + card (A - insert k B)"
proof (cases "k \<in> B")
  case True
  have "card (insert k A - B) = card (A - insert k B)"
    by (rule arg_cong[where f = card]) (use True in blast)
  then show ?thesis by (simp only: True if_True add_0)
next
  case False
  have "card (insert k A - B) = card (insert k (A - insert k B))"
    by (rule arg_cong[where f = card]) (use False in blast)
  also have "\<dots> = Suc (card (A - insert k B))"
    by (rule card_insert_disjoint) (use assms in auto)
  finally show ?thesis by (simp only: False if_False plus_1_eq_Suc)
qed

lemma adds_refresh_loop:
  "adds (fst (refresh_loop K vs s seen)) =
     adds s + card (vehicleId ` set vs - fst ` set (markerMap s))"
proof (induction vs arbitrary: s seen)
  case Nil
  then show ?case by simp
next
  case (Cons v vs)
  have "adds (fst (refresh_loop K (v # vs) s seen)) =
      adds (refresh_position K v s)
      + card (vehicleId ` set vs - insert (vehicleId v) (fst ` set (markerMap s)))"
    by (simp only: refresh_loop.simps Cons.IH keys_refresh_position)
  also have "\<dots> = adds s + card (insert (vehicleId v) (vehicleId ` set vs) - fst ` set (markerMap s))"
    by (simp only: adds_refresh_position card_new_ids[OF finite_imageI[OF finite_set]] add.assoc)
  finally show ?case by (simp only: list.set image_insert)
qed

lemma adds_refresh_sweep: "adds (refresh_sweep seen ps s) = adds s"
  by (induction ps arbitrary: s) (auto simp: adds_def)

lemma adds_refresh_resume:
  "visible s \<Longrightarrow> adds (refresh_resume s (OkJson data)) =
     adds s + card (vehicleId ` set data - fst ` set (markerMap s))"
proof -
  assume v: "visible s"
  have a: "adds (s\<lparr>vehicles := data\<rparr>) = adds s" by (simp add: adds_def)
  have b: "\<And>t. adds (t\<lparr>layerOnMap := True, calls := calls t @ [LayerAddTo]\<rparr>) = adds t"
    by (simp add: adds_def)
  show ?thesis using v
    by (simp add: refresh_resume_def Let_def b adds_refresh_sweep adds_refresh_loop a)
qed

text \<open>
  C9. Let a snapshot hold several positions with one vehicle id, \<open>v\<close> being the last of
  them, and let the registry have one entry per key, as a \<^verbatim>\<open>Map\<close> does. After a visible
  \<^verbatim>\<open>refresh\<close> the registry has exactly one entry for that id; its marker position and
  its cached heading, speed and colour are those of \<open>v\<close>; if the id had an entry
  before, the marker is still the same object; the keys are the ids of the snapshot; and
  the number of markers added to the layer is the number of ids that had no entry, so a
  repeated id adds one marker and is updated in place afterwards.
\<close>

theorem refresh_duplicate_ids:
  assumes "visible s" and "distinct (map fst (markerMap s))"
    and "vehicleId v \<notin> vehicleId ` set post"
  shows "length (filter (\<lambda>p. fst p = vehicleId v)
           (markerMap (refresh s (Some m) (OkJson (pre @ v # post))))) = 1
    \<and> (\<exists>e. map_of (markerMap (refresh s (Some m) (OkJson (pre @ v # post)))) (vehicleId v) = Some e
         \<and> entry_reflects (rv_vehicleId ` set (registeredVehicles s)) v e
         \<and> (\<forall>e0. map_of (markerMap s) (vehicleId v) = Some e0 \<longrightarrow>
               mid (marker e) = mid (marker e0)))
    \<and> fst ` set (markerMap (refresh s (Some m) (OkJson (pre @ v # post)))) =
         vehicleId ` set (pre @ v # post)
    \<and> adds (refresh s (Some m) (OkJson (pre @ v # post))) =
         adds s + card (vehicleId ` set (pre @ v # post) - fst ` set (markerMap s))"
proof -
  let ?d = "pre @ v # post"
  let ?s' = "refresh_resume s (OkJson ?d)"
  have r: "refresh s (Some m) (OkJson ?d) = ?s'" by (simp only: refresh_def option.case)
  have keys: "fst ` set (markerMap ?s') = vehicleId ` set ?d"
    by (rule keys_refresh_resume[OF assms(1)])
  have mem: "vehicleId v \<in> vehicleId ` set ?d" by simp
  have dist: "distinct (map fst (markerMap ?s'))"
    by (rule distinct_refresh_resume[OF assms(1,2)])
  have one: "length (filter (\<lambda>p. fst p = vehicleId v) (markerMap ?s')) = 1"
    by (rule count_key_distinct[OF dist]) (simp only: keys mem)
  from entry_after_refresh_resume[OF assms(1,3), of pre]
  obtain e where e: "map_of (markerMap ?s') (vehicleId v) = Some e"
    and re: "entry_reflects (rv_vehicleId ` set (registeredVehicles s)) v e" by blast
  have same: "\<forall>e0. map_of (markerMap s) (vehicleId v) = Some e0 \<longrightarrow>
      mid (marker e) = mid (marker e0)"
  proof (intro allI impI)
    fix e0 assume "map_of (markerMap s) (vehicleId v) = Some e0"
    from mid_refresh_resume[OF assms(1) this mem] e
    show "mid (marker e) = mid (marker e0)" by simp
  qed
  have cnt: "adds ?s' = adds s + card (vehicleId ` set ?d - fst ` set (markerMap s))"
    by (rule adds_refresh_resume[OF assms(1)])
  from one e re same keys cnt show ?thesis unfolding r by blast
qed

theorem refresh_duplicate_ids_witness:
  "length (filter (\<lambda>p. fst p = ''A'')
      (markerMap (refresh init (Some LeafletMap) (OkJson [posA, posB, posA90])))) = 1
   \<and> (\<exists>e. map_of (markerMap (refresh init (Some LeafletMap) (OkJson [posA, posB, posA90]))) ''A''
           = Some e
         \<and> latlng (marker e) = (1, 1) \<and> e_heading e = 90 \<and> e_speed e = None
         \<and> e_color e = ''#757575'')
   \<and> fst ` set (markerMap (refresh init (Some LeafletMap) (OkJson [posA, posB, posA90]))) =
        {''A'', ''B''}
   \<and> adds (refresh init (Some LeafletMap) (OkJson [posA, posB, posA90])) = 2"
proof -
  have h: "visible init" "distinct (map fst (markerMap init))"
    "vehicleId posA90 \<notin> vehicleId ` set []"
    by (simp_all add: init_def)
  have c: "card {''A'', ''B''} = 2" by simp
  have a: "adds init = 0" by (simp add: adds_def init_def)
  show ?thesis
    using refresh_duplicate_ids[OF h, of LeafletMap "[posA, posB]"] a c
    by (auto simp: posA_def posB_def posA90_def entry_reflects_def vehicle_heading_def
        vehicle_color_def init_def insert_commute)
qed

section \<open>The same snapshot twice\<close>

lemma update_entry_noop:
  "entry_reflects K v e \<Longrightarrow>
   update_entry v (vehicle_heading v) (vehicle_color K v) e = (e, [])"
  by (simp add: update_entry_def entry_reflects_def Let_def)

lemma refresh_position_noop:
  assumes "map_of (markerMap s) (vehicleId v) = Some e" and "entry_reflects K v e"
  shows "refresh_position K v s = s"
  using assms
  by (simp add: refresh_position_def Let_def update_entry_noop update_triv)

lemma refresh_loop_noop:
  "(\<forall>v\<in>set vs. \<exists>e. map_of (markerMap s) (vehicleId v) = Some e \<and> entry_reflects K v e)
   \<Longrightarrow> fst (refresh_loop K vs s seen) = s"
proof (induction vs arbitrary: seen)
  case Nil
  then show ?case by simp
next
  case (Cons v vs)
  from Cons.prems obtain e where "map_of (markerMap s) (vehicleId v) = Some e"
    and "entry_reflects K v e" by auto
  then have "refresh_position K v s = s" by (rule refresh_position_noop)
  with Cons show ?case by simp
qed

lemma refresh_sweep_noop: "fst ` set ps \<subseteq> seen \<Longrightarrow> refresh_sweep seen ps s = s"
  by (induction ps arbitrary: s) auto

lemma entry_reflects_cong:
  assumes "vehicleId v = vehicleId w" "lat v = lat w" "lng v = lng w"
    "vehicle_heading v = vehicle_heading w" "speed v = speed w"
  shows "entry_reflects K v e = entry_reflects K w e"
  using assms by (simp add: entry_reflects_def vehicle_color_def)

lemma set_vehicles_same: "vehicles s = d \<Longrightarrow> s\<lparr>vehicles := d\<rparr> = s"
  by auto

text \<open>
  A visible state with the layer on the map, whose registry reflects every position of
  the snapshot and has no other key, is left as it is by the pass.
\<close>

lemma refresh_resume_fixpoint:
  assumes vis: "visible s" and lay: "layerOnMap s" and veh: "vehicles s = data"
    and keys: "fst ` set (markerMap s) \<subseteq> vehicleId ` set data"
    and ent: "\<forall>v\<in>set data. \<exists>e. map_of (markerMap s) (vehicleId v) = Some e
        \<and> entry_reflects (rv_vehicleId ` set (registeredVehicles s)) v e"
  shows "refresh_resume s (OkJson data) = s"
proof -
  let ?K = "rv_vehicleId ` set (registeredVehicles s)"
  have s0: "s\<lparr>vehicles := data\<rparr> = s" by (rule set_vehicles_same[OF veh])
  have l1: "fst (refresh_loop ?K data s {}) = s" by (rule refresh_loop_noop[OF ent])
  have l2: "snd (refresh_loop ?K data s {}) = vehicleId ` set data"
    by (simp add: seen_refresh_loop)
  have sw: "refresh_sweep (vehicleId ` set data) (markerMap s) s = s"
    by (rule refresh_sweep_noop[OF keys])
  show ?thesis
    unfolding refresh_resume_def response.case Let_def s0 set_map l1 l2 sw
    using vis lay by simp
qed

lemma entries_after_refresh_resume:
  assumes agree: "\<forall>v\<in>set data. \<forall>w\<in>set data. vehicleId v = vehicleId w \<longrightarrow>
      lat v = lat w \<and> lng v = lng w \<and> vehicle_heading v = vehicle_heading w \<and> speed v = speed w"
    and vis: "visible s" and v: "v \<in> set data"
  shows "\<exists>e. map_of (markerMap (refresh_resume s (OkJson data))) (vehicleId v) = Some e
        \<and> entry_reflects (rv_vehicleId ` set (registeredVehicles s)) v e"
proof -
  let ?K = "rv_vehicleId ` set (registeredVehicles s)"
  from last_occurrence[OF v] obtain pre w post where d: "data = pre @ w # post"
    and id: "vehicleId w = vehicleId v" and nin: "vehicleId v \<notin> vehicleId ` set post"
    by blast
  from nin id have nin': "vehicleId w \<notin> vehicleId ` set post" by simp
  from entry_after_refresh_resume[OF vis nin', of pre]
  obtain e where e: "map_of (markerMap (refresh_resume s (OkJson data))) (vehicleId w) = Some e"
    and r: "entry_reflects ?K w e"
    unfolding d by blast
  have w: "w \<in> set data" by (simp add: d)
  have eqs: "lat v = lat w \<and> lng v = lng w
      \<and> vehicle_heading v = vehicle_heading w \<and> speed v = speed w"
    by (rule agree[rule_format, OF v w id[symmetric]])
  have "entry_reflects ?K v e = entry_reflects ?K w e"
    by (rule entry_reflects_cong) (use eqs id in simp_all)
  with e r id show ?thesis by simp
qed

text \<open>
  C2, for snapshots whose positions with the same vehicle id agree in coordinates,
  heading (\<^verbatim>\<open>null\<close> read as 0) and speed, in particular for snapshots with pairwise
  distinct ids: a second \<^verbatim>\<open>refresh\<close> on the same snapshot returns the state of the
  first, trace included, so it makes no call at all and leaves the registry and every
  cached attribute unchanged.
\<close>

theorem refresh_twice_unchanged:
  assumes agree: "\<forall>v\<in>set data. \<forall>w\<in>set data. vehicleId v = vehicleId w \<longrightarrow>
      lat v = lat w \<and> lng v = lng w \<and> vehicle_heading v = vehicle_heading w \<and> speed v = speed w"
  shows "refresh (refresh s (Some m) (OkJson data)) (Some m) (OkJson data) =
         refresh s (Some m) (OkJson data)"
proof -
  let ?s1 = "refresh_resume s (OkJson data)"
  have "refresh_resume ?s1 (OkJson data) = ?s1"
  proof (cases "visible s")
    case False
    then show ?thesis by (simp add: refresh_resume_def)
  next
    case True
    have vis: "visible ?s1" using True by (simp only: refresh_resume_frame)
    have reg: "registeredVehicles ?s1 = registeredVehicles s"
      by (simp only: refresh_resume_frame)
    have veh: "vehicles ?s1 = data" by (rule vehicles_refresh_resume)
    have lay: "layerOnMap ?s1" by (rule layerOnMap_refresh_resume[OF True])
    have keys: "fst ` set (markerMap ?s1) \<subseteq> vehicleId ` set data"
      by (simp only: keys_refresh_resume[OF True] subset_refl)
    have ent: "\<forall>v\<in>set data. \<exists>e. map_of (markerMap ?s1) (vehicleId v) = Some e
        \<and> entry_reflects (rv_vehicleId ` set (registeredVehicles ?s1)) v e"
      unfolding reg by (intro ballI entries_after_refresh_resume[OF agree True])
    show ?thesis
      by (rule refresh_resume_fixpoint[OF vis lay veh keys ent])
  qed
  then show ?thesis by (simp only: refresh_def option.case)
qed

theorem refresh_twice_unchanged_witness:
  "refresh (refresh stA (Some LeafletMap) (OkJson [posB, posA90])) (Some LeafletMap)
     (OkJson [posB, posA90]) = refresh stA (Some LeafletMap) (OkJson [posB, posA90])
   \<and> refresh (refresh init (Some LeafletMap) (OkJson [posA, posB, posA])) (Some LeafletMap)
     (OkJson [posA, posB, posA]) = refresh init (Some LeafletMap) (OkJson [posA, posB, posA])"
  using refresh_twice_unchanged[of "[posB, posA90]" stA LeafletMap]
    refresh_twice_unchanged[of "[posA, posB, posA]" init LeafletMap]
  by (simp add: posB_def posA90_def posA_def)

text \<open>
  C2 as stated, for every snapshot, fails when an id occurs twice with different
  headings: the entry is left reflecting the last occurrence, so the second pass
  regenerates icon and popup for the first occurrence and again for the last.
\<close>

theorem refresh_twice_duplicates_counterexample:
  "calls (refresh (refresh init (Some LeafletMap) (OkJson [posA, posA90])) (Some LeafletMap)
            (OkJson [posA, posA90])) =
   calls (refresh init (Some LeafletMap) (OkJson [posA, posA90])) @
     [SetIcon 0 (makeVehicleIcon 0 ''#757575''), SetPopupContent 0 (makeVehiclePopup posA),
      SetIcon 0 (makeVehicleIcon 90 ''#757575''), SetPopupContent 0 (makeVehiclePopup posA90)]"
  by (simp add: refresh_def refresh_resume_def refresh_position_def update_entry_def
      new_entry_def vehicle_color_def vehicle_heading_def init_def posA_def posA90_def Let_def
      makeVehicleIcon_def makeVehiclePopup_def)

section \<open>Marker colour\<close>

lemma update_entry_ok: "entry_ok e \<Longrightarrow> entry_ok (fst (update_entry v h c e))"
  by (cases e) (auto simp: update_entry_def entry_ok_def Let_def)

lemma new_entry_ok: "entry_ok (new_entry v h c n)"
  by (simp add: new_entry_def entry_ok_def)

lemma entries_ok_update:
  "\<forall>p\<in>set al. entry_ok (snd p) \<Longrightarrow> entry_ok x \<Longrightarrow>
   \<forall>p\<in>set (AList.update k x al). entry_ok (snd p)"
  by (induction al) auto

lemma entries_ok_refresh_position:
  assumes "\<forall>p\<in>set (markerMap s). entry_ok (snd p)"
  shows "\<forall>p\<in>set (markerMap (refresh_position K v s)). entry_ok (snd p)"
proof (cases "map_of (markerMap s) (vehicleId v)")
  case None
  then show ?thesis
    using entries_ok_update[OF assms new_entry_ok]
    by (simp add: refresh_position_def Let_def)
next
  case (Some e)
  then have "(vehicleId v, e) \<in> set (markerMap s)" by (rule map_of_SomeD)
  with assms have "entry_ok e" by force
  from entries_ok_update[OF assms update_entry_ok[OF this]] Some
  show ?thesis by (simp add: refresh_position_def Let_def)
qed

lemma entries_ok_refresh_loop:
  "\<forall>p\<in>set (markerMap s). entry_ok (snd p) \<Longrightarrow>
   \<forall>p\<in>set (markerMap (fst (refresh_loop K vs s seen))). entry_ok (snd p)"
proof (induction vs arbitrary: s seen)
  case Nil
  then show ?case by simp
next
  case (Cons v vs)
  from Cons.IH[OF entries_ok_refresh_position[OF Cons.prems]]
  show ?case by (simp only: refresh_loop.simps)
qed

lemma entries_ok_refresh_resume:
  assumes "visible s" and "\<forall>p\<in>set (markerMap s). entry_ok (snd p)"
  shows "\<forall>p\<in>set (markerMap (refresh_resume s (OkJson data))). entry_ok (snd p)"
proof -
  have "\<forall>p\<in>set (markerMap (s\<lparr>vehicles := data\<rparr>)). entry_ok (snd p)"
    using assms(2) by simp
  from entries_ok_refresh_loop[OF this]
  show ?thesis
    by (simp only: markerMap_refresh_resume[OF assms(1)] set_filter) blast
qed

lemma color_after_refresh_resume:
  assumes vis: "visible s" and ok: "\<forall>p\<in>set (markerMap s). entry_ok (snd p)"
    and v: "v \<in> set data"
  shows "\<exists>e. map_of (markerMap (refresh_resume s (OkJson data))) (vehicleId v) = Some e
    \<and> e_color e = vehicle_color (rv_vehicleId ` set (registeredVehicles s)) v
    \<and> iconColor (icon (marker e)) = e_color e"
proof -
  let ?K = "rv_vehicleId ` set (registeredVehicles s)"
  from last_occurrence[OF v] obtain pre w post where d: "data = pre @ w # post"
    and id: "vehicleId w = vehicleId v" and nin: "vehicleId v \<notin> vehicleId ` set post"
    by blast
  from nin id have nin': "vehicleId w \<notin> vehicleId ` set post" by simp
  from entry_after_refresh_resume[OF vis nin', of pre]
  obtain e where e: "map_of (markerMap (refresh_resume s (OkJson data))) (vehicleId w) = Some e"
    and r: "entry_reflects ?K w e"
    unfolding d by blast
  from r have c: "e_color e = vehicle_color ?K v"
    by (simp add: entry_reflects_def vehicle_color_def id)
  from e have "(vehicleId w, e) \<in> set (markerMap (refresh_resume s (OkJson data)))"
    by (rule map_of_SomeD)
  with entries_ok_refresh_resume[OF vis ok, of data] have "entry_ok e" by force
  then have "iconColor (icon (marker e)) = e_color e"
    by (simp add: entry_ok_def makeVehicleIcon_def)
  with e c id show ?thesis by simp
qed

text \<open>
  Calls are only ever appended to the trace.
\<close>

lemma calls_refresh_position: "\<exists>cs. calls (refresh_position K v s) = calls s @ cs"
  by (simp add: refresh_position_def Let_def split: option.split)

lemma calls_refresh_loop: "\<exists>cs. calls (fst (refresh_loop K vs s seen)) = calls s @ cs"
proof (induction vs arbitrary: s seen)
  case Nil
  then show ?case by simp
next
  case (Cons v vs)
  obtain c1 where c1: "calls (refresh_position K v s) = calls s @ c1"
    using calls_refresh_position by blast
  obtain c2 where "calls (fst (refresh_loop K vs (refresh_position K v s)
      (insert (vehicleId v) seen))) = calls (refresh_position K v s) @ c2"
    using Cons.IH by blast
  then have "calls (fst (refresh_loop K (v # vs) s seen)) = calls s @ (c1 @ c2)"
    by (simp only: refresh_loop.simps c1 append_assoc)
  then show ?case by (rule exI)
qed

lemma calls_refresh_sweep: "\<exists>cs. calls (refresh_sweep seen ps s) = calls s @ cs"
proof (induction ps arbitrary: s)
  case Nil
  then show ?case by simp
next
  case (Cons p ps)
  show ?case
  proof (cases "fst p \<in> seen")
    case True
    with Cons.IH[of s] show ?thesis by simp
  next
    case False
    let ?t = "s\<lparr>markerLayer := removeAll (mid (marker (snd p))) (markerLayer s),
               markerMap := AList.delete (fst p) (markerMap s),
               calls := calls s @ [RemoveLayer (mid (marker (snd p)))]\<rparr>"
    obtain c2 where "calls (refresh_sweep seen ps ?t) = calls ?t @ c2"
      using Cons.IH by blast
    then have "calls (refresh_sweep seen (p # ps) s) =
        calls s @ ([RemoveLayer (mid (marker (snd p)))] @ c2)"
      using False by simp
    then show ?thesis by (rule exI)
  qed
qed

lemma seticon_update_entry:
  "e_color e \<noteq> c \<Longrightarrow>
   SetIcon (mid (marker e)) (makeVehicleIcon h c) \<in> set (snd (update_entry v h c e))"
  by (simp add: update_entry_def Let_def)

lemma seticon_refresh_position:
  assumes "map_of (markerMap s) (vehicleId w) = Some e0" and "e_color e0 \<noteq> vehicle_color K w"
  shows "\<exists>cs. calls (refresh_position K w s) = calls s @ cs
    \<and> SetIcon (mid (marker e0)) (makeVehicleIcon (vehicle_heading w) (vehicle_color K w)) \<in> set cs"
  using assms seticon_update_entry[OF assms(2), of "vehicle_heading w" w]
  by (simp add: refresh_position_def Let_def)

lemma seticon_refresh_loop:
  assumes e0: "map_of (markerMap s) (vehicleId w) = Some e0"
    and col: "e_color e0 \<noteq> vehicle_color K w"
    and nin: "vehicleId w \<notin> vehicleId ` set pre"
  shows "\<exists>cs. calls (fst (refresh_loop K (pre @ w # post) s seen)) = calls s @ cs
    \<and> SetIcon (mid (marker e0)) (makeVehicleIcon (vehicle_heading w) (vehicle_color K w)) \<in> set cs"
proof -
  let ?X = "SetIcon (mid (marker e0)) (makeVehicleIcon (vehicle_heading w) (vehicle_color K w))"
  let ?s1 = "fst (refresh_loop K pre s seen)"
  let ?seen1 = "snd (refresh_loop K pre s seen)"
  obtain c1 where c1: "calls ?s1 = calls s @ c1" using calls_refresh_loop by blast
  have "map_of (markerMap ?s1) (vehicleId w) = Some e0"
    using e0 by (simp only: map_of_refresh_loop_other[OF nin])
  from seticon_refresh_position[OF this col]
  obtain c2 where c2: "calls (refresh_position K w ?s1) = calls ?s1 @ c2" and x: "?X \<in> set c2"
    by blast
  obtain c3 where c3: "calls (fst (refresh_loop K post (refresh_position K w ?s1)
      (insert (vehicleId w) ?seen1))) = calls (refresh_position K w ?s1) @ c3"
    using calls_refresh_loop by blast
  have "calls (fst (refresh_loop K (pre @ w # post) s seen)) = calls s @ (c1 @ c2 @ c3)"
    by (simp only: refresh_loop_append refresh_loop.simps c3 c2 c1 append_assoc)
  moreover have "?X \<in> set (c1 @ c2 @ c3)" using x by simp
  ultimately show ?thesis by blast
qed

lemma calls_after_loop_refresh_resume:
  assumes "visible s"
  shows "\<exists>cs. calls (refresh_resume s (OkJson data)) =
     calls (fst (refresh_loop (rv_vehicleId ` set (registeredVehicles s)) data
        (s\<lparr>vehicles := data\<rparr>) {})) @ cs"
proof -
  let ?r = "refresh_loop (rv_vehicleId ` set (registeredVehicles s)) data (s\<lparr>vehicles := data\<rparr>) {}"
  let ?s3 = "refresh_sweep (snd ?r) (markerMap (fst ?r)) (fst ?r)"
  obtain c where c: "calls ?s3 = calls (fst ?r) @ c" using calls_refresh_sweep by blast
  have "refresh_resume s (OkJson data) =
      (if \<not> layerOnMap ?s3 then ?s3\<lparr>layerOnMap := True, calls := calls ?s3 @ [LayerAddTo]\<rparr>
       else ?s3)"
    using assms by (simp add: refresh_resume_def Let_def)
  then have "calls (refresh_resume s (OkJson data)) =
      calls (fst ?r) @ (c @ (if \<not> layerOnMap ?s3 then [LayerAddTo] else []))"
    using c by simp
  then show ?thesis by (rule exI)
qed

lemma seticon_refresh_resume:
  assumes vis: "visible s" and e0: "map_of (markerMap s) (vehicleId v) = Some e0"
    and col: "e_color e0 \<noteq> vehicle_color (rv_vehicleId ` set (registeredVehicles s)) v"
    and v: "v \<in> set data"
  shows "\<exists>w\<in>set data. vehicleId w = vehicleId v \<and>
     SetIcon (mid (marker e0)) (makeVehicleIcon (vehicle_heading w)
        (vehicle_color (rv_vehicleId ` set (registeredVehicles s)) v))
       \<in> set (drop (length (calls s)) (calls (refresh_resume s (OkJson data))))"
proof -
  let ?K = "rv_vehicleId ` set (registeredVehicles s)"
  from first_occurrence[OF v] obtain pre w post where d: "data = pre @ w # post"
    and id: "vehicleId w = vehicleId v" and nin: "vehicleId v \<notin> vehicleId ` set pre"
    by blast
  have cw: "vehicle_color ?K w = vehicle_color ?K v" by (simp add: vehicle_color_def id)
  have e0': "map_of (markerMap (s\<lparr>vehicles := data\<rparr>)) (vehicleId w) = Some e0"
    using e0 id by simp
  have col': "e_color e0 \<noteq> vehicle_color ?K w" using col cw by simp
  have nin': "vehicleId w \<notin> vehicleId ` set pre" using nin id by simp
  from seticon_refresh_loop[OF e0' col' nin', of post "{}"]
  obtain c1 where c1: "calls (fst (refresh_loop ?K data (s\<lparr>vehicles := data\<rparr>) {})) =
      calls s @ c1"
    and x: "SetIcon (mid (marker e0)) (makeVehicleIcon (vehicle_heading w) (vehicle_color ?K v))
      \<in> set c1"
    unfolding d cw by auto
  from calls_after_loop_refresh_resume[OF vis, of data]
  obtain c2 where "calls (refresh_resume s (OkJson data)) =
      calls (fst (refresh_loop ?K data (s\<lparr>vehicles := data\<rparr>) {})) @ c2" by blast
  then have "drop (length (calls s)) (calls (refresh_resume s (OkJson data))) = c1 @ c2"
    by (simp add: c1)
  moreover have "w \<in> set data" by (simp add: d)
  ultimately show ?thesis using x id by auto
qed

text \<open>
  C8. After a visible \<^verbatim>\<open>refresh\<close>, for every position of the snapshot, wherever it
  stands in the list, the entry of its vehicle has the colour \<^verbatim>\<open>#E65100\<close> exactly when
  the id is in \<^verbatim>\<open>registeredVehicles\<close> and \<^verbatim>\<open>#757575\<close> otherwise, and the icon on the
  marker has that colour. If the entry was cached with the colour of an unknown vehicle
  and the id is registered by now, the pass calls \<^verbatim>\<open>setIcon\<close> on that marker with an
  icon of the known colour.
\<close>

theorem refresh_color_classification:
  assumes "visible s" and "\<forall>p\<in>set (markerMap s). entry_ok (snd p)" and "v \<in> set data"
  shows "(\<exists>e. map_of (markerMap (refresh s (Some m) (OkJson data))) (vehicleId v) = Some e
            \<and> e_color e = (if vehicleId v \<in> rv_vehicleId ` set (registeredVehicles s)
                            then ''#E65100'' else ''#757575'')
            \<and> iconColor (icon (marker e)) = e_color e)
    \<and> (\<forall>e0. map_of (markerMap s) (vehicleId v) = Some e0 \<and> e_color e0 = ''#757575''
              \<and> vehicleId v \<in> rv_vehicleId ` set (registeredVehicles s) \<longrightarrow>
          (\<exists>w\<in>set data. vehicleId w = vehicleId v
             \<and> SetIcon (mid (marker e0)) (makeVehicleIcon (vehicle_heading w) ''#E65100'')
                 \<in> set (drop (length (calls s)) (calls (refresh s (Some m) (OkJson data))))))"
proof -
  let ?K = "rv_vehicleId ` set (registeredVehicles s)"
  have r: "refresh s (Some m) (OkJson data) = refresh_resume s (OkJson data)"
    by (simp only: refresh_def option.case)
  have c: "vehicle_color ?K v = (if vehicleId v \<in> ?K then ''#E65100'' else ''#757575'')"
    by (simp only: vehicle_color_def)
  have 1: "\<exists>e. map_of (markerMap (refresh_resume s (OkJson data))) (vehicleId v) = Some e
            \<and> e_color e = (if vehicleId v \<in> ?K then ''#E65100'' else ''#757575'')
            \<and> iconColor (icon (marker e)) = e_color e"
    using color_after_refresh_resume[OF assms] unfolding c .
  have 2: "\<forall>e0. map_of (markerMap s) (vehicleId v) = Some e0 \<and> e_color e0 = ''#757575''
              \<and> vehicleId v \<in> ?K \<longrightarrow>
          (\<exists>w\<in>set data. vehicleId w = vehicleId v
             \<and> SetIcon (mid (marker e0)) (makeVehicleIcon (vehicle_heading w) ''#E65100'')
                 \<in> set (drop (length (calls s)) (calls (refresh_resume s (OkJson data)))))"
  proof (intro allI impI, elim conjE)
    fix e0
    assume e0: "map_of (markerMap s) (vehicleId v) = Some e0" and g: "e_color e0 = ''#757575''"
      and k: "vehicleId v \<in> ?K"
    from k have ck: "vehicle_color ?K v = ''#E65100''" by (simp add: vehicle_color_def)
    have "e_color e0 \<noteq> vehicle_color ?K v" unfolding ck g by simp
    from seticon_refresh_resume[OF assms(1) e0 this assms(3)]
    show "\<exists>w\<in>set data. vehicleId w = vehicleId v
             \<and> SetIcon (mid (marker e0)) (makeVehicleIcon (vehicle_heading w) ''#E65100'')
                 \<in> set (drop (length (calls s)) (calls (refresh_resume s (OkJson data))))"
      unfolding ck .
  qed
  from 1 2 show ?thesis unfolding r by (rule conjI)
qed

theorem refresh_color_classification_witness:
  "(\<exists>e. map_of (markerMap stA) ''A'' = Some e \<and> e_color e = ''#757575'')
   \<and> (\<exists>e. map_of (markerMap (refresh stKnown (Some LeafletMap) (OkJson [posA]))) ''A'' = Some e
         \<and> e_color e = ''#E65100'' \<and> iconColor (icon (marker e)) = ''#E65100'')
   \<and> SetIcon 0 (makeVehicleIcon 0 ''#E65100'')
        \<in> set (drop 2 (calls (refresh stKnown (Some LeafletMap) (OkJson [posA]))))"
proof -
  let ?s' = "refresh stKnown (Some LeafletMap) (OkJson [posA])"
  have v: "visible stKnown" by (simp add: stKnown_eval stA_eval)
  have ok: "\<forall>p\<in>set (markerMap stKnown). entry_ok (snd p)"
    by (simp add: stKnown_eval stA_eval entryA_def entry_ok_def makeVehicleIcon_def)
  have i: "posA \<in> set [posA]" by simp
  have id: "vehicleId posA = ''A''" and hd: "vehicle_heading posA = 0"
    by (simp_all add: posA_def vehicle_heading_def)
  have known: "vehicleId posA \<in> rv_vehicleId ` set (registeredVehicles stKnown)"
    by (simp add: stKnown_eval regA_def id)
  have m: "map_of (markerMap stKnown) (vehicleId posA) = Some entryA"
    and g: "e_color entryA = ''#757575''" and n: "mid (marker entryA) = 0"
    and len: "length (calls stKnown) = 2"
    by (simp_all add: stKnown_eval stA_eval id entryA_def)
  note inst = refresh_color_classification[OF v ok i, of LeafletMap]
  from inst known have a: "\<exists>e. map_of (markerMap ?s') ''A'' = Some e
         \<and> e_color e = ''#E65100'' \<and> iconColor (icon (marker e)) = ''#E65100''"
    by (auto simp: id)
  from inst m g known have "\<exists>w\<in>set [posA]. vehicleId w = vehicleId posA
     \<and> SetIcon (mid (marker entryA)) (makeVehicleIcon (vehicle_heading w) ''#E65100'')
          \<in> set (drop (length (calls stKnown)) (calls ?s'))"
    by blast
  then have b: "SetIcon 0 (makeVehicleIcon 0 ''#E65100'') \<in> set (drop 2 (calls ?s'))"
    by (simp add: n len hd)
  have c: "\<exists>e. map_of (markerMap stA) ''A'' = Some e \<and> e_color e = ''#757575''"
    by (simp add: stA_eval entryA_def)
  from a b c show ?thesis by blast
qed

section \<open>Registries the code can reach\<close>

text \<open>
  The hypotheses on the registry used above hold when the composable is created and are
  kept by every operation: keys are distinct, and every icon is the one rendered from
  the cached heading and colour.
\<close>

lemma registry_init:
  "distinct (map fst (markerMap init))" "\<forall>p\<in>set (markerMap init). entry_ok (snd p)"
  by (simp_all add: init_def)

lemma registry_refresh_resume:
  assumes "distinct (map fst (markerMap s))" and "\<forall>p\<in>set (markerMap s). entry_ok (snd p)"
  shows "distinct (map fst (markerMap (refresh_resume s res)))"
    and "\<forall>p\<in>set (markerMap (refresh_resume s res)). entry_ok (snd p)"
proof -
  have "distinct (map fst (markerMap (refresh_resume s res)))
      \<and> (\<forall>p\<in>set (markerMap (refresh_resume s res)). entry_ok (snd p))"
  proof (cases res)
    case (OkJson data)
    show ?thesis
    proof (cases "visible s")
      case True
      from distinct_refresh_resume[OF True assms(1), of data]
        entries_ok_refresh_resume[OF True assms(2), of data]
      show ?thesis unfolding OkJson by (rule conjI)
    next
      case False
      with assms show ?thesis by (simp add: OkJson refresh_resume_def)
    qed
  qed (use assms in \<open>simp_all add: refresh_resume_def\<close>)
  then show "distinct (map fst (markerMap (refresh_resume s res)))"
    and "\<forall>p\<in>set (markerMap (refresh_resume s res)). entry_ok (snd p)"
    by blast+
qed

lemma registry_other_operations:
  "markerMap (fetchRegisteredVehicles s rs) = markerMap s"
  "markerMap (selectVehicle_begin s vid) = markerMap s"
  "markerMap (selectVehicle_resume s ps) = markerMap s"
  "markerMap (clearTrack s) = markerMap s"
  "markerMap (start s n) = markerMap s"
  "markerMap (stop s m) = []"
  "markerMap (toggleVisibility s m) = markerMap s \<or> markerMap (toggleVisibility s m) = []"
  by (simp_all add: fetchRegisteredVehicles_def selectVehicle_begin_def selectVehicle_resume_def
      clearTrack_def start_def stop_frame toggleVisibility_def remove_track_def Let_def
      split: response.split option.split)

section \<open>refresh after stop\<close>

text \<open>
  C4, as the code has it. \<^verbatim>\<open>stop\<close> sets no flag that \<^verbatim>\<open>refresh\<close> reads. After
  \<^verbatim>\<open>stop\<close>, a \<^verbatim>\<open>refresh\<close> that finds the map handle null does nothing; a
  continuation that meets a failed fetch does nothing; one that arrives while the layer
  is hidden only stores the snapshot; but one that holds a map handle and arrives with a
  snapshot while \<^verbatim>\<open>visible\<close> is true reconciles as usual: the registry is filled with
  the ids of the snapshot and the marker layer is put back on the map.
\<close>

theorem refresh_after_stop:
  "refresh (stop s m) None res = stop s m
   \<and> (res = NetworkError \<or> res = NotOk \<or> res = BadJson \<longrightarrow>
        refresh_resume (stop s m) res = stop s m)
   \<and> (\<not> visible s \<longrightarrow>
        refresh_resume (stop s m) (OkJson data) = (stop s m)\<lparr>vehicles := data\<rparr>)
   \<and> (visible s \<longrightarrow>
        fst ` set (markerMap (refresh_resume (stop s m) (OkJson data))) = vehicleId ` set data
        \<and> layerOnMap (refresh_resume (stop s m) (OkJson data)))"
proof -
  have a: "refresh (stop s m) None res = stop s m" by (simp add: refresh_def)
  have b: "res = NetworkError \<or> res = NotOk \<or> res = BadJson \<longrightarrow>
        refresh_resume (stop s m) res = stop s m"
    by (auto simp: refresh_resume_def)
  have c: "\<not> visible s \<longrightarrow>
        refresh_resume (stop s m) (OkJson data) = (stop s m)\<lparr>vehicles := data\<rparr>"
    by (simp add: refresh_resume_def stop_frame)
  have d: "visible s \<longrightarrow>
        fst ` set (markerMap (refresh_resume (stop s m) (OkJson data))) = vehicleId ` set data
        \<and> layerOnMap (refresh_resume (stop s m) (OkJson data))"
    by (simp add: keys_refresh_resume layerOnMap_refresh_resume stop_frame)
  from a b c d show ?thesis by blast
qed

theorem refresh_after_stop_witness:
  "refresh (stop stA (Some LeafletMap)) None (OkJson [posB]) = stop stA (Some LeafletMap)
   \<and> refresh_resume (stop stA (Some LeafletMap)) NotOk = stop stA (Some LeafletMap)
   \<and> refresh_resume (stop (toggleVisibility stA (Some LeafletMap)) (Some LeafletMap)) (OkJson [posB])
       = (stop (toggleVisibility stA (Some LeafletMap)) (Some LeafletMap))\<lparr>vehicles := [posB]\<rparr>
   \<and> fst ` set (markerMap (refresh_resume (stop stA (Some LeafletMap)) (OkJson [posB]))) = {''B''}"
proof -
  have h: "\<not> visible (toggleVisibility stA (Some LeafletMap))"
    using stA_facts(1) by (simp add: toggleVisibility_def Let_def)
  show ?thesis
    using refresh_after_stop[of stA "Some LeafletMap" "OkJson [posB]" "[posB]"]
      refresh_after_stop[of stA "Some LeafletMap" NotOk "[posB]"]
      refresh_after_stop[of "toggleVisibility stA (Some LeafletMap)" "Some LeafletMap" NotOk "[posB]"]
      h stA_facts(1)
    by (simp add: posB_def)
qed

text \<open>
  C4 as stated fails: after \<^verbatim>\<open>stop\<close> has emptied the registry and taken the layer
  off the map, the continuation of a request issued before it, and equally a new call
  while \<^verbatim>\<open>getMap()\<close> still returns the map, creates the marker of \<open>A\<close> again and
  attaches the layer.
\<close>

theorem refresh_after_stop_counterexample:
  "markerMap (stop stA (Some LeafletMap)) = []
   \<and> \<not> layerOnMap (stop stA (Some LeafletMap))
   \<and> fst ` set (markerMap (refresh_resume (stop stA (Some LeafletMap)) (OkJson [posA]))) = {''A''}
   \<and> layerOnMap (refresh_resume (stop stA (Some LeafletMap)) (OkJson [posA]))
   \<and> markerMap (refresh (stop stA (Some LeafletMap)) (Some LeafletMap) (OkJson [posA])) \<noteq>
       markerMap (stop stA (Some LeafletMap))"
proof -
  let ?t = "stop stA (Some LeafletMap)"
  let ?u = "refresh_resume ?t (OkJson [posA])"
  have v: "visible ?t" by (simp only: stop_frame stA_facts)
  have e: "markerMap ?t = []" by (rule stop_frame)
  have l: "\<not> layerOnMap ?t"
    by (simp add: stop_def remove_track_def Let_def split: option.split)
  have k: "fst ` set (markerMap ?u) = {''A''}"
    by (simp add: keys_refresh_resume[OF v] posA_def)
  have ne: "markerMap ?u \<noteq> []"
  proof
    assume "markerMap ?u = []"
    then have "fst ` set (markerMap ?u) = {}" by simp
    with k show False by simp
  qed
  have r: "refresh ?t (Some LeafletMap) (OkJson [posA]) = ?u"
    by (simp only: refresh_def option.case)
  have n: "markerMap (refresh ?t (Some LeafletMap) (OkJson [posA])) \<noteq> markerMap ?t"
    unfolding r e by (rule ne)
  from e l k layerOnMap_refresh_resume[OF v, of "[posA]"] n show ?thesis by blast
qed

section \<open>Track of the selected vehicle\<close>

text \<open>
  When only the current track is on the map, the operations run one after the other
  keep it so.
\<close>

lemma track_invariant_kept:
  assumes "\<forall>q\<in>set (mapTracks s). trackPolyline s = Some q"
  shows "\<forall>q\<in>set (mapTracks (selectVehicle s m vid res)).
           trackPolyline (selectVehicle s m vid res) = Some q"
    and "mapTracks (clearTrack s) = []"
    and "mapTracks (stop s m) = []"
    and "mapTracks (refresh_resume s r) = mapTracks s"
    and "trackPolyline (refresh_resume s r) = trackPolyline s"
proof -
  have rt: "mapTracks (remove_track t) = []"
    if "trackPolyline t = trackPolyline s" and "mapTracks t = mapTracks s" for t
  proof (cases "trackPolyline s")
    case None
    with assms have "mapTracks s = []" by (cases "mapTracks s") auto
    with None that show ?thesis by (simp add: remove_track_def)
  next
    case (Some p)
    with assms have "filter (\<lambda>q. pid q \<noteq> pid p) (mapTracks s) = []"
      by (auto simp: filter_empty_conv)
    with Some that show ?thesis by (simp add: remove_track_def)
  qed
  have b: "mapTracks (selectVehicle_begin s vid) = []"
    using rt[of "s\<lparr>selectedVehicleId := Some vid\<rparr>"] by (simp add: selectVehicle_begin_def)
  show "\<forall>q\<in>set (mapTracks (selectVehicle s m vid res)).
           trackPolyline (selectVehicle s m vid res) = Some q"
    using assms b
    by (cases m; cases res) (simp_all add: selectVehicle_def selectVehicle_resume_def Let_def)
  show "mapTracks (clearTrack s) = []"
    using rt[of s] by (simp add: clearTrack_def)
  show "mapTracks (stop s m) = []"
    using rt[of s] rt[of "s\<lparr>timer := None, calls := calls s @ [ClearInterval]\<rparr>"]
    by (simp add: stop_def Let_def split: option.split)
  show "mapTracks (refresh_resume s r) = mapTracks s"
    and "trackPolyline (refresh_resume s r) = trackPolyline s"
    by (simp_all add: refresh_resume_frame)
qed

text \<open>
  C7, for a call of \<^verbatim>\<open>selectVehicle\<close> during which no other call is in flight, from
  a state in which the only polyline on the map, if any, is \<^verbatim>\<open>trackPolyline\<close>: when
  the history fetch fails or returns fewer than 2 points, no polyline is on the map
  afterwards; when it returns \<open>n \<ge> 2\<close> points, exactly one polyline is on the map, with
  one vertex per point, in order.
\<close>

theorem selectVehicle_track:
  assumes "\<forall>q\<in>set (mapTracks s). trackPolyline s = Some q"
  shows "(res = NetworkError \<or> res = NotOk \<or> res = BadJson
            \<or> (\<exists>pts. res = OkJson pts \<and> length pts < 2) \<longrightarrow>
          mapTracks (selectVehicle s (Some m) vid res) = []
          \<and> trackPolyline (selectVehicle s (Some m) vid res) = None)
    \<and> (2 \<le> length pts \<longrightarrow>
         (\<exists>p. trackPolyline (selectVehicle s (Some m) vid (OkJson pts)) = Some p
            \<and> mapTracks (selectVehicle s (Some m) vid (OkJson pts)) = [p]
            \<and> latlngs p = map (\<lambda>q. (lat q, lng q)) pts
            \<and> length (latlngs p) = length pts))"
proof -
  have e: "mapTracks (selectVehicle_begin s vid) = []"
  proof (cases "trackPolyline s")
    case None
    with assms have "mapTracks s = []" by (cases "mapTracks s") auto
    with None show ?thesis by (simp add: selectVehicle_begin_def remove_track_def)
  next
    case (Some p)
    with assms have "filter (\<lambda>q. pid q \<noteq> pid p) (mapTracks s) = []"
      by (auto simp: filter_empty_conv)
    with Some show ?thesis by (simp add: selectVehicle_begin_def remove_track_def)
  qed
  have n: "trackPolyline (selectVehicle_begin s vid) = None"
    by (simp add: selectVehicle_begin_def)
  show ?thesis
    using e n by (auto simp: selectVehicle_def selectVehicle_resume_def Let_def)
qed

theorem selectVehicle_track_witness:
  "mapTracks (selectVehicle stTrack (Some LeafletMap) ''B'' (OkJson [posB])) = []
   \<and> trackPolyline (selectVehicle stTrack (Some LeafletMap) ''B'' (OkJson [posB])) = None
   \<and> (\<exists>p. trackPolyline (selectVehicle stTrack (Some LeafletMap) ''B'' (OkJson [posB, posA])) = Some p
        \<and> mapTracks (selectVehicle stTrack (Some LeafletMap) ''B'' (OkJson [posB, posA])) = [p]
        \<and> latlngs p = [(2, 2), (1, 1)])"
proof -
  have h: "\<forall>q\<in>set (mapTracks stTrack). trackPolyline stTrack = Some q"
    by (simp add: stTrack_eval)
  show ?thesis
    using selectVehicle_track[OF h, where res = "OkJson [posB]" and m = LeafletMap
        and vid = "''B''" and pts = "[posB, posA]"]
    by (auto simp: posB_def posA_def)
qed

text \<open>
  C7 as stated, at most one track ever visible, fails when a second selection starts
  while the history of the first is still being fetched: the second call finds no line
  to remove, and both lines are drawn.
\<close>

theorem selectVehicle_overlap_counterexample:
  "length (mapTracks
     (selectVehicle_resume
        (selectVehicle_resume
           (selectVehicle_begin (selectVehicle_begin init ''A'') ''B'')
           (OkJson [posA, posA90]))
        (OkJson [posB, posB]))) = 2"
  by (simp add: selectVehicle_resume_def selectVehicle_begin_def remove_track_def init_def Let_def)

text \<open>
  C10. \<^verbatim>\<open>selectVehicle\<close> sets the selection and removes the current track before it
  fetches. When the fetch fails, is not a success, or returns fewer than 2 points, the
  state stays as it was before the fetch: the selection is the new id, there is no
  track, and the previous line is no longer on the map.
\<close>

theorem selectVehicle_no_rollback:
  assumes "res = NetworkError \<or> res = NotOk \<or> res = BadJson
     \<or> (\<exists>pts. res = OkJson pts \<and> length pts < 2)"
  shows "selectVehicle s (Some m) vid res = selectVehicle_begin s vid
     \<and> selectVehicle_resume (selectVehicle_begin s vid) res = selectVehicle_begin s vid
     \<and> selectedVehicleId (selectVehicle_begin s vid) = Some vid
     \<and> trackPolyline (selectVehicle_begin s vid) = None
     \<and> (\<forall>p. trackPolyline s = Some p \<longrightarrow> p \<notin> set (mapTracks (selectVehicle_begin s vid)))"
  using assms
  by (auto simp: selectVehicle_def selectVehicle_resume_def selectVehicle_begin_def
      remove_track_def split: option.split)

theorem selectVehicle_no_rollback_witness:
  "selectedVehicleId stTrack = Some ''A''
   \<and> mapTracks stTrack = [\<lparr>pid = 0, latlngs = [(1, 1), (1, 1)]\<rparr>]
   \<and> selectedVehicleId (selectVehicle stTrack (Some LeafletMap) ''B'' NotOk) = Some ''B''
   \<and> trackPolyline (selectVehicle stTrack (Some LeafletMap) ''B'' NotOk) = None
   \<and> \<lparr>pid = 0, latlngs = [(1, 1), (1, 1)]\<rparr>
       \<notin> set (mapTracks (selectVehicle stTrack (Some LeafletMap) ''B'' NotOk))
   \<and> selectVehicle stTrack (Some LeafletMap) ''B'' NotOk \<noteq> stTrack"
proof -
  have t: "trackPolyline stTrack = Some \<lparr>pid = 0, latlngs = [(1, 1), (1, 1)]\<rparr>"
    "selectedVehicleId stTrack = Some ''A''"
    "mapTracks stTrack = [\<lparr>pid = 0, latlngs = [(1, 1), (1, 1)]\<rparr>]"
    by (simp_all add: stTrack_eval)
  have "selectedVehicleId (selectVehicle stTrack (Some LeafletMap) ''B'' NotOk) = Some ''B''
   \<and> trackPolyline (selectVehicle stTrack (Some LeafletMap) ''B'' NotOk) = None
   \<and> \<lparr>pid = 0, latlngs = [(1, 1), (1, 1)]\<rparr>
       \<notin> set (mapTracks (selectVehicle stTrack (Some LeafletMap) ''B'' NotOk))"
    using selectVehicle_no_rollback[of NotOk stTrack LeafletMap "''B''"] t(1) by simp
  moreover from this have "selectVehicle stTrack (Some LeafletMap) ''B'' NotOk \<noteq> stTrack"
    using t(2) by auto
  ultimately show ?thesis using t by simp
qed

end
